theory Spec2Isabelle
  imports Complex_Main "HOL-Library.AList" "HOL-Library.Product_Lexorder"
begin

section \<open>Values read from and written to \<^verbatim>\<open>words.json\<close>\<close>

text \<open>
  The engine of \<^verbatim>\<open>main.py\<close> keeps every word as a Python \<^verbatim>\<open>dict\<close> that came out of
  \<^verbatim>\<open>json.load\<close> (or out of the literal \<^verbatim>\<open>DEFAULT_WORDS\<close>). The values such a dict can
  hold are \<^verbatim>\<open>None\<close>, \<^verbatim>\<open>bool\<close>, \<^verbatim>\<open>int\<close>, \<^verbatim>\<open>float\<close>, \<^verbatim>\<open>str\<close>, \<^verbatim>\<open>list\<close> and
  \<^verbatim>\<open>dict\<close> with string keys. A \<^verbatim>\<open>float\<close> is kept by its exact value (every finite double is
  a rational) or as one of the three special values \<^verbatim>\<open>json.load\<close> accepts. A \<^verbatim>\<open>str\<close> is a
  \<^typ>\<open>string\<close>: its UTF-8 bytes, which for ASCII text are its characters. \<^verbatim>\<open>json.load\<close>
  reads an escape such as \<^verbatim>\<open>\ud800\<close> as a lone surrogate; such a code point is kept by the
  three bytes the same scheme gives it (\<open>0xED\<close>, then a byte from \<open>0xA0\<close> on, then one more).
  A \<^verbatim>\<open>dict\<close> is an association list in insertion order.
\<close>

datatype pyfloat = Finite rat | PosInf | NegInf | NaN

datatype json =
    JNull
  | JBool bool
  | JInt int
  | JFloat pyfloat
  | JStr string
  | JList "json list"
  | JObj "(string \<times> json) list"

type_synonym word = "(string \<times> json) list"

datatype error =
    TypeError | ValueError | OverflowError | KeyError | OSError | JSONDecodeError
  | UnicodeEncodeError

definition e_bind :: "error + 'a \<Rightarrow> ('a \<Rightarrow> error + 'b) \<Rightarrow> error + 'b" where
  "e_bind m f = (case m of Inl e \<Rightarrow> Inl e | Inr x \<Rightarrow> f x)"

subsection \<open>Constants of the module\<close>

definition POOL_SIZE :: nat where "POOL_SIZE = 40"
definition STREAK_TO_GRADUATE :: int where "STREAK_TO_GRADUATE = 3"
definition MAX_STAGE :: int where "MAX_STAGE = 6"

text \<open>\<^verbatim>\<open>STAGE_COOLDOWN_DAYS.get(stage, 2)\<close>: the table with its default.\<close>

definition STAGE_COOLDOWN_DAYS :: "int \<Rightarrow> int option" where
  "STAGE_COOLDOWN_DAYS =
     [1 \<mapsto> 1, 2 \<mapsto> 2, 3 \<mapsto> 4, 4 \<mapsto> 7, 5 \<mapsto> 14, 6 \<mapsto> 30]"

definition cooldown_days :: "int \<Rightarrow> int" where
  "cooldown_days stage = (case STAGE_COOLDOWN_DAYS stage of Some d \<Rightarrow> d | None \<Rightarrow> 2)"

definition day_seconds :: "int \<Rightarrow> int" where
  "day_seconds days = days * 24 * 60 * 60"

subsection \<open>The builtin \<^verbatim>\<open>int(x)\<close>\<close>

text \<open>
  \<^verbatim>\<open>int\<close> of a string skips white space at both ends, reads an optional sign and then
  decimal digits, where single underscores may stand between digits; anything else is a
  \<^verbatim>\<open>ValueError\<close>. The white space \<^verbatim>\<open>int\<close> skips in ASCII text is the space and the
  characters 9 to 13; the separators 28 to 31, which \<^verbatim>\<open>str.strip\<close> removes, are not skipped.
  The model reads ASCII text as \<^verbatim>\<open>int\<close> does. It does not model the white space and the
  digits outside ASCII, which \<^verbatim>\<open>int\<close> also reads, nor the limit that recent interpreters
  put on the number of digits. Nothing proved below depends on which strings are read as
  integers.
\<close>

definition is_space :: "char \<Rightarrow> bool" where
  "is_space c = (c = CHR '' '' \<or> (9 \<le> (of_char c :: nat) \<and> (of_char c :: nat) \<le> 13))"

definition strip :: "string \<Rightarrow> string" where
  "strip s = rev (dropWhile is_space (rev (dropWhile is_space s)))"

definition is_digit :: "char \<Rightarrow> bool" where
  "is_digit c = (48 \<le> (of_char c :: nat) \<and> (of_char c :: nat) \<le> 57)"

fun digit_run :: "bool \<Rightarrow> string \<Rightarrow> bool" where
  "digit_run prev [] = prev"
| "digit_run prev (c # cs) =
     (if is_digit c then digit_run True cs
      else if c = CHR ''_'' \<and> prev then (cs \<noteq> [] \<and> is_digit (hd cs) \<and> digit_run False cs)
      else False)"

definition digits_value :: "string \<Rightarrow> int" where
  "digits_value s = foldl (\<lambda>acc c. 10 * acc + (int (of_char c) - 48)) 0 (filter is_digit s)"

definition int_of_str :: "string \<Rightarrow> error + int" where
  "int_of_str s =
     (let t = strip s;
          neg = (t \<noteq> [] \<and> hd t = CHR ''-'');
          u = (if t \<noteq> [] \<and> (hd t = CHR ''-'' \<or> hd t = CHR ''+'') then tl t else t)
      in if digit_run False u then Inr (if neg then - digits_value u else digits_value u)
         else Inl ValueError)"

definition int_of_float :: "pyfloat \<Rightarrow> error + int" where
  "int_of_float f =
     (case f of
        Finite q \<Rightarrow> Inr (if 0 \<le> q then \<lfloor>q\<rfloor> else \<lceil>q\<rceil>)
      | PosInf \<Rightarrow> Inl OverflowError
      | NegInf \<Rightarrow> Inl OverflowError
      | NaN \<Rightarrow> Inl ValueError)"

fun py_int :: "json \<Rightarrow> error + int" where
  "py_int (JInt n) = Inr n"
| "py_int (JBool b) = Inr (if b then 1 else 0)"
| "py_int (JFloat f) = int_of_float f"
| "py_int (JStr s) = int_of_str s"
| "py_int JNull = Inl TypeError"
| "py_int (JList xs) = Inl TypeError"
| "py_int (JObj kvs) = Inl TypeError"

subsection \<open>Dictionary operations\<close>

text \<open>
  \<^verbatim>\<open>w.get(k, d)\<close>, \<^verbatim>\<open>k in w\<close>, \<^verbatim>\<open>w.setdefault(k, d)\<close> and \<^verbatim>\<open>w[k]\<close>; the assignment
  \<^verbatim>\<open>w[k] = v\<close> is \<^const>\<open>AList.update\<close>, which overwrites in place or appends.
\<close>

definition dict_get :: "word \<Rightarrow> string \<Rightarrow> json \<Rightarrow> json" where
  "dict_get w k d = (case map_of w k of None \<Rightarrow> d | Some v \<Rightarrow> v)"

definition has_key :: "word \<Rightarrow> string \<Rightarrow> bool" where
  "has_key w k = (map_of w k \<noteq> None)"

definition setdefault :: "string \<Rightarrow> json \<Rightarrow> word \<Rightarrow> word" where
  "setdefault k d w = (if has_key w k then w else AList.update k d w)"

definition getitem :: "word \<Rightarrow> string \<Rightarrow> error + json" where
  "getitem w k = (case map_of w k of None \<Rightarrow> Inl KeyError | Some v \<Rightarrow> Inr v)"

text \<open>\<^verbatim>\<open>int(w.get(k, d))\<close>, the way the engine reads every numeric field.\<close>

definition get_int :: "word \<Rightarrow> string \<Rightarrow> int \<Rightarrow> error + int" where
  "get_int w k d = py_int (dict_get w k (JInt d))"

text \<open>
  \<^verbatim>\<open>w[k]\<close> used as a number in \<^verbatim>\<open>min\<close>/\<^verbatim>\<open>max\<close> right after the coercion loop of
  \<^verbatim>\<open>normalize_word\<close> has stored an \<^verbatim>\<open>int\<close> there.
\<close>

definition item_int :: "word \<Rightarrow> string \<Rightarrow> error + int" where
  "item_int w k =
     (case map_of w k of None \<Rightarrow> Inl KeyError | Some (JInt n) \<Rightarrow> Inr n | Some _ \<Rightarrow> Inl TypeError)"

section \<open>\<^verbatim>\<open>normalize_word\<close>\<close>

text \<open>
  One round of the loop \<^verbatim>\<open>for k, d in [...]: try: w[k] = int(w.get(k, d)) except Exception: w[k] = d\<close>.
\<close>

definition coerce_field :: "string \<times> int \<Rightarrow> word \<Rightarrow> word" where
  "coerce_field kd w =
     (case get_int w (fst kd) (snd kd) of
        Inr n \<Rightarrow> AList.update (fst kd) (JInt n) w
      | Inl e \<Rightarrow> AList.update (fst kd) (JInt (snd kd)) w)"

definition numeric_defaults :: "(string \<times> int) list" where
  "numeric_defaults =
     [(''stage'', 0), (''streak'', 0), (''due'', 0), (''again'', 0), (''correct'', 0)]"

text \<open>
  The two calls of \<^verbatim>\<open>int\<close> outside the \<^verbatim>\<open>try\<close> block (on \<^verbatim>\<open>interval\<close> when \<^verbatim>\<open>stage\<close> is
  absent, and on \<^verbatim>\<open>correct\<close> as the eagerly evaluated argument of \<^verbatim>\<open>setdefault\<close>) raise to
  the caller.
\<close>

definition normalize_word :: "word \<Rightarrow> error + word" where
  "normalize_word w0 =
     (let w1 = setdefault ''tr'' (JStr '''') w0;
          w2 = setdefault ''ru'' (JList []) w1
      in e_bind
           (if \<not> has_key w2 ''stage''
            then e_bind (py_int (dict_get w2 ''interval'' (JInt 1)))
                   (\<lambda>interval. Inr (AList.update ''stage''
                                     (JInt (min MAX_STAGE (max 0 (interval - 1)))) w2))
            else Inr w2)
           (\<lambda>w3.
              let w4 = setdefault ''streak'' (JInt 0) w3;
                  w5 = setdefault ''due'' (JInt 0) w4;
                  w6 = setdefault ''again'' (JInt 0) w5
              in e_bind (py_int (dict_get w6 ''correct'' (JInt 0)))
                   (\<lambda>c.
                      let w7 = setdefault ''correct'' (JInt c) w6;
                          w8 = fold coerce_field numeric_defaults w7
                      in e_bind (item_int w8 ''stage'')
                           (\<lambda>st.
                              let w9 = AList.update ''stage'' (JInt (min MAX_STAGE (max 0 st))) w8
                              in e_bind (item_int w9 ''again'')
                                   (\<lambda>ag.
                                      let w10 = AList.update ''again'' (JInt (min 10 (max 0 ag))) w9
                                      in e_bind (getitem w10 ''ru'')
                                           (\<lambda>ru. Inr (case ru of
                                                         JStr s \<Rightarrow> AList.update ''ru'' (JList [JStr s]) w10
                                                       | _ \<Rightarrow> w10)))))))"


section \<open>Equality of values, infinitive verbs\<close>

text \<open>
  Python's \<^verbatim>\<open>==\<close> on the values above: numbers compare by value across \<^verbatim>\<open>bool\<close>,
  \<^verbatim>\<open>int\<close> and \<^verbatim>\<open>float\<close>, lists compare element by element, dicts compare as finite
  maps (the order of the keys does not matter). \<^verbatim>\<open>json.load\<close> uses one object for every
  \<^verbatim>\<open>NaN\<close> it reads, and the comparison of containers takes identical objects as equal, so
  \<^verbatim>\<open>NaN\<close> equals \<^verbatim>\<open>NaN\<close> here.
\<close>

fun num_val :: "json \<Rightarrow> pyfloat option" where
  "num_val (JBool b) = Some (Finite (if b then 1 else 0))"
| "num_val (JInt n) = Some (Finite (of_int n))"
| "num_val (JFloat f) = Some f"
| "num_val JNull = None"
| "num_val (JStr s) = None"
| "num_val (JList xs) = None"
| "num_val (JObj kvs) = None"

fun py_eq :: "json \<Rightarrow> json \<Rightarrow> bool" where
  "py_eq JNull y = (y = JNull)"
| "py_eq (JBool b) y = (num_val y = Some (Finite (if b then 1 else 0)))"
| "py_eq (JInt n) y = (num_val y = Some (Finite (of_int n)))"
| "py_eq (JFloat f) y = (num_val y = Some f)"
| "py_eq (JStr s) y = (y = JStr s)"
| "py_eq (JList xs) (JList ys) = list_all2 py_eq xs ys"
| "py_eq (JList xs) y = False"
| "py_eq (JObj a) (JObj b) =
     (set (map fst a) = set (map fst b)
      \<and> (\<forall>(k, v) \<in> set a. map_of a k = Some v \<longrightarrow>
            (case map_of b k of Some v' \<Rightarrow> py_eq v v' | None \<Rightarrow> False)))"
| "py_eq (JObj a) y = False"

text \<open>
  \<^verbatim>\<open>w in xs\<close> for a word \<^verbatim>\<open>w\<close> and a list \<^verbatim>\<open>xs\<close> of words, both given by their positions
  in \<^verbatim>\<open>self.words\<close>: the same object, or an equal one.
\<close>

definition py_in :: "word list \<Rightarrow> nat \<Rightarrow> nat list \<Rightarrow> bool" where
  "py_in ws i js = list_ex (\<lambda>j. j = i \<or> py_eq (JObj (ws ! j)) (JObj (ws ! i))) js"

definition endswith :: "string \<Rightarrow> string \<Rightarrow> bool" where
  "endswith s suf = (length suf \<le> length s \<and> drop (length s - length suf) s = suf)"

text \<open>
  \<^verbatim>\<open>str.strip\<close> and \<^verbatim>\<open>str.lower\<close> follow the Unicode tables of the interpreter: they remove
  or change characters outside ASCII too (a no-break space is stripped, the Kelvin sign is
  lowered to \<^verbatim>\<open>k\<close>). The two methods enter as the parameter \<open>lib\<close>, and what is proved holds
  for every pair of functions. The test for a space and the test for the ending are on
  ASCII characters, which UTF-8 keeps as single bytes that occur nowhere else.
\<close>

record str_methods =
  py_strip :: "string \<Rightarrow> string"
  py_lower :: "string \<Rightarrow> string"

definition is_infinitive_verb :: "str_methods \<Rightarrow> string \<Rightarrow> bool" where
  "is_infinitive_verb lib tr0 =
     (let tr = py_lower lib (py_strip lib tr0)
      in CHR '' '' \<notin> set tr \<and> (endswith tr ''mek'' \<or> endswith tr ''mak''))"

text \<open>
  \<^verbatim>\<open>is_infinitive_verb(str(w.get("tr", "")))\<close>. When the value under \<^verbatim>\<open>tr\<close> is not a
  string, \<^verbatim>\<open>str\<close> of it is \<^verbatim>\<open>None\<close>, \<^verbatim>\<open>True\<close>, \<^verbatim>\<open>False\<close>, a numeral, or a text closed by
  a bracket or a brace, and none of these ends in \<^verbatim>\<open>mek\<close> or \<^verbatim>\<open>mak\<close>.
\<close>

definition verb_word :: "str_methods \<Rightarrow> word \<Rightarrow> bool" where
  "verb_word lib w =
     (case dict_get w ''tr'' (JStr '''') of JStr s \<Rightarrow> is_infinitive_verb lib s | _ \<Rightarrow> False)"

section \<open>The engine\<close>

text \<open>
  The file under \<^verbatim>\<open>data_path\<close> is absent, or cannot be opened, or does not hold JSON, or
  holds an array of objects, which is kept as the values \<^verbatim>\<open>json.load\<close> reads from it.
\<close>

datatype storage = Missing | Unreadable | Invalid | Stored "word list"

text \<open>
  The file is opened with \<^verbatim>\<open>encoding="utf-8"\<close> and written by \<^verbatim>\<open>json.dump\<close> with
  \<^verbatim>\<open>ensure_ascii=False\<close>, so every string goes to the file as it is, and the codec rejects
  a lone surrogate with \<^verbatim>\<open>UnicodeEncodeError\<close>. A string can be written when no byte
  \<open>0xED\<close> in it is followed by a byte from \<open>0xA0\<close> on; a value can be written when all the
  strings in it can, the keys of its dicts included.
\<close>

fun has_surrogate :: "string \<Rightarrow> bool" where
  "has_surrogate (a # b # cs) =
     ((a = CHR 0xED \<and> 160 \<le> (of_char b :: nat)) \<or> has_surrogate (b # cs))"
| "has_surrogate cs = False"

fun encodable :: "json \<Rightarrow> bool" where
  "encodable (JStr s) = (\<not> has_surrogate s)"
| "encodable (JList xs) = (\<forall>x \<in> set xs. encodable x)"
| "encodable (JObj kvs) = (\<forall>(k, v) \<in> set kvs. \<not> has_surrogate k \<and> encodable v)"
| "encodable v = True"

text \<open>
  \<^verbatim>\<open>self.pool\<close> and \<^verbatim>\<open>self.current\<close> hold references to the dicts of \<^verbatim>\<open>self.words\<close>; they
  are positions in \<^verbatim>\<open>words\<close> here, so that a change of the current word is a change of the
  collection, as in the source.
\<close>

record engine =
  store :: storage
  writable :: bool
  words :: "word list"
  pool :: "nat list"
  current :: "nat option"

fun e_map :: "('a \<Rightarrow> error + 'b) \<Rightarrow> 'a list \<Rightarrow> error + 'b list" where
  "e_map f [] = Inr []"
| "e_map f (x # xs) = e_bind (f x) (\<lambda>y. e_bind (e_map f xs) (\<lambda>ys. Inr (y # ys)))"

fun e_filter :: "('a \<Rightarrow> error + bool) \<Rightarrow> 'a list \<Rightarrow> error + 'a list" where
  "e_filter f [] = Inr []"
| "e_filter f (x # xs) =
     e_bind (f x) (\<lambda>b. e_bind (e_filter f xs) (\<lambda>ys. Inr (if b then x # ys else ys)))"

definition DEFAULT_WORDS :: "word list" where
  "DEFAULT_WORDS = [
    [(''tr'', JStr (''ev'')),
     (''ru'', JList [JStr ([CHR 0xD0, CHR 0xB4, CHR 0xD0, CHR 0xBE, CHR 0xD0, CHR 0xBC])]),
     (''stage'', JInt 0), (''streak'', JInt 0), (''due'', JInt 0), (''again'', JInt 0), (''correct'', JInt 0)],
    [(''tr'', JStr (''gitmek'')),
     (''ru'', JList [JStr ([CHR 0xD0, CHR 0xB8, CHR 0xD0, CHR 0xB4, CHR 0xD1, CHR 0x82, CHR 0xD0, CHR 0xB8]),
                     JStr ([CHR 0xD0, CHR 0xB5, CHR 0xD1, CHR 0x85, CHR 0xD0, CHR 0xB0, CHR 0xD1, CHR 0x82, CHR 0xD1, CHR 0x8C]),
                     JStr ([CHR 0xD1, CHR 0x83, CHR 0xD0, CHR 0xB5, CHR 0xD0, CHR 0xB7, CHR 0xD0, CHR 0xB6, CHR 0xD0, CHR 0xB0, CHR 0xD1, CHR 0x82, CHR 0xD1, CHR 0x8C])]),
     (''stage'', JInt 0), (''streak'', JInt 0), (''due'', JInt 0), (''again'', JInt 0), (''correct'', JInt 0)],
    [(''tr'', JStr (''g'' @ [CHR 0xC3, CHR 0xBC] @ ''zel'')),
     (''ru'', JList [JStr ([CHR 0xD0, CHR 0xBA, CHR 0xD1, CHR 0x80, CHR 0xD0, CHR 0xB0, CHR 0xD1, CHR 0x81, CHR 0xD0, CHR 0xB8, CHR 0xD0, CHR 0xB2, CHR 0xD1, CHR 0x8B, CHR 0xD0, CHR 0xB9]),
                     JStr ([CHR 0xD1, CHR 0x85, CHR 0xD0, CHR 0xBE, CHR 0xD1, CHR 0x80, CHR 0xD0, CHR 0xBE, CHR 0xD1, CHR 0x88, CHR 0xD0, CHR 0xB8, CHR 0xD0, CHR 0xB9]),
                     JStr ([CHR 0xD0, CHR 0xBF, CHR 0xD1, CHR 0x80, CHR 0xD0, CHR 0xB8, CHR 0xD1, CHR 0x8F, CHR 0xD1, CHR 0x82, CHR 0xD0, CHR 0xBD, CHR 0xD1, CHR 0x8B, CHR 0xD0, CHR 0xB9])]),
     (''stage'', JInt 0), (''streak'', JInt 0), (''due'', JInt 0), (''again'', JInt 0), (''correct'', JInt 0)],
    [(''tr'', JStr (''almak'')),
     (''ru'', JList [JStr ([CHR 0xD0, CHR 0xB1, CHR 0xD1, CHR 0x80, CHR 0xD0, CHR 0xB0, CHR 0xD1, CHR 0x82, CHR 0xD1, CHR 0x8C]),
                     JStr ([CHR 0xD0, CHR 0xBF, CHR 0xD0, CHR 0xBE, CHR 0xD0, CHR 0xBA, CHR 0xD1, CHR 0x83, CHR 0xD0, CHR 0xBF, CHR 0xD0, CHR 0xB0, CHR 0xD1, CHR 0x82, CHR 0xD1, CHR 0x8C]),
                     JStr ([CHR 0xD0, CHR 0xBF, CHR 0xD0, CHR 0xBE, CHR 0xD0, CHR 0xBB, CHR 0xD1, CHR 0x83, CHR 0xD1, CHR 0x87, CHR 0xD0, CHR 0xB0, CHR 0xD1, CHR 0x82, CHR 0xD1, CHR 0x8C])]),
     (''stage'', JInt 0), (''streak'', JInt 0), (''due'', JInt 0), (''again'', JInt 0), (''correct'', JInt 0)],
    [(''tr'', JStr (''zaman'')),
     (''ru'', JList [JStr ([CHR 0xD0, CHR 0xB2, CHR 0xD1, CHR 0x80, CHR 0xD0, CHR 0xB5, CHR 0xD0, CHR 0xBC, CHR 0xD1, CHR 0x8F]),
                     JStr ([CHR 0xD0, CHR 0xBF, CHR 0xD0, CHR 0xB5, CHR 0xD1, CHR 0x80, CHR 0xD0, CHR 0xB8, CHR 0xD0, CHR 0xBE, CHR 0xD0, CHR 0xB4])]),
     (''stage'', JInt 0), (''streak'', JInt 0), (''due'', JInt 0), (''again'', JInt 0), (''correct'', JInt 0)]]"

subsection \<open>\<^verbatim>\<open>load_words\<close>, \<^verbatim>\<open>save_words\<close> and the constructor\<close>

text \<open>
  The body of \<^verbatim>\<open>load_words\<close> stands in the source at the indentation of its \<^verbatim>\<open>def\<close> line;
  it is read here as the body of that method. Reading an existing file is not guarded:
  a failure of \<^verbatim>\<open>open\<close>, of \<^verbatim>\<open>json.load\<close> or of \<^verbatim>\<open>normalize_word\<close> reaches the caller.
  Only the write of the defaults is inside \<^verbatim>\<open>try\<close>.
\<close>

text \<open>
  \<^verbatim>\<open>with open(path, "w", encoding="utf-8") as f: json.dump(ws, f, ensure_ascii=False, indent=2)\<close>,
  the write of both \<^verbatim>\<open>load_words\<close> and \<^verbatim>\<open>save_words\<close>. Whether the file can be opened for
  writing and takes what is written is for the medium to decide (\<open>wr\<close>); when it cannot,
  \<^verbatim>\<open>OSError\<close> is raised and the file is as it was. When a string of the collection cannot be
  encoded, \<^verbatim>\<open>UnicodeEncodeError\<close> is raised after \<^verbatim>\<open>open\<close> has emptied the file and the text
  before that string has been written; what the file then holds opens the array and does
  not close it, so it is not JSON. Otherwise the file holds the text of the collection;
  \<^verbatim>\<open>json.load\<close> reads from that text the values that were written. The limits an
  interpreter may put on the text it produces (the number of digits of an integer, the
  depth of nesting) are not modelled.
\<close>

definition write_words :: "bool \<Rightarrow> storage \<Rightarrow> word list \<Rightarrow> storage \<times> error option" where
  "write_words wr f ws =
     (if \<not> wr then (f, Some OSError)
      else if encodable (JList (map JObj ws)) then (Stored ws, None)
      else (Invalid, Some UnicodeEncodeError))"

definition load_words :: "storage \<Rightarrow> bool \<Rightarrow> storage \<times> (error + word list)" where
  "load_words f wr =
     (case f of
        Unreadable \<Rightarrow> (f, Inl OSError)
      | Invalid \<Rightarrow> (f, Inl JSONDecodeError)
      | Stored data \<Rightarrow> (f, e_map normalize_word data)
      | Missing \<Rightarrow>
          (case e_map normalize_word DEFAULT_WORDS of
             Inl e \<Rightarrow> (f, Inl e)
           | Inr ws \<Rightarrow> (fst (write_words wr f ws), Inr ws)))"

text \<open>\<^verbatim>\<open>save_words\<close> has no \<^verbatim>\<open>try\<close>: a failed write raises.\<close>

definition save_words :: "engine \<Rightarrow> engine \<times> error option" where
  "save_words s =
     (let (f, failed) = write_words (writable s) (store s) (words s)
      in (s\<lparr>store := f\<rparr>, failed))"

text \<open>
  \<^verbatim>\<open>StudyEngine.__init__\<close>: when the data file is absent and the bundled file exists, the
  bundled file is copied; a failed copy is ignored. Then the words are loaded.
\<close>

definition init :: "storage \<Rightarrow> storage \<Rightarrow> bool \<Rightarrow> error + engine" where
  "init f bundled wr =
     (let f1 = (if f = Missing \<and> bundled \<noteq> Missing \<and> bundled \<noteq> Unreadable \<and> wr
                then bundled else f)
      in case load_words f1 wr of
           (f2, Inl e) \<Rightarrow> Inl e
         | (f2, Inr ws) \<Rightarrow>
             Inr \<lparr>store = f2, writable = wr, words = ws, pool = [], current = None\<rparr>)"

subsection \<open>Eligibility and the pool\<close>

text \<open>
  \<^verbatim>\<open>int(w.get("due", 0)) <= now() and int(w.get("stage", 0)) < MAX_STAGE\<close>; the second
  operand is evaluated only when the first one holds.
\<close>

definition is_available_now :: "int \<Rightarrow> word \<Rightarrow> error + bool" where
  "is_available_now t w =
     e_bind (get_int w ''due'' 0)
       (\<lambda>d. if d \<le> t then e_bind (get_int w ''stage'' 0) (\<lambda>g. Inr (g < MAX_STAGE))
             else Inr False)"

definition MIN_VERB_SHARE :: rat where "MIN_VERB_SHARE = 35 / 100"

definition target_verbs :: nat where
  "target_verbs = max 0 (min (nat (round (of_nat POOL_SIZE * MIN_VERB_SHARE))) POOL_SIZE)"

text \<open>
  \<^verbatim>\<open>refresh_pool\<close>. The clock is read once for every word tested, \<open>clk i\<close> for the word at
  position \<open>i\<close>. \<^verbatim>\<open>complexity_score\<close> is computed in binary floating point; the engine uses
  it only as the second component of the sort key. Every double it can return is a
  rational, so it enters as a function \<open>score\<close> into the rationals, and what is proved
  holds for every such function. The sort is stable, as \<^verbatim>\<open>list.sort\<close> is.
\<close>

definition refresh_pool ::
  "str_methods \<Rightarrow> (word \<Rightarrow> rat) \<Rightarrow> (nat \<Rightarrow> int) \<Rightarrow> engine \<Rightarrow> error + engine" where
  "refresh_pool lib score clk s =
     (let ws = words s
      in e_bind (e_filter (\<lambda>i. is_available_now (clk i) (ws ! i)) [0..<length ws])
           (\<lambda>avail.
              e_bind (e_map (\<lambda>i. e_bind (get_int (ws ! i) ''stage'' 0)
                                     (\<lambda>g. Inr (g, score (ws ! i)))) avail)
                (\<lambda>keys.
                   let available = map fst (sort_key snd (zip avail keys));
                       verbs = filter (\<lambda>i. verb_word lib (ws ! i)) available;
                       others = filter (\<lambda>i. \<not> py_in ws i verbs) available;
                       pool1 = take target_verbs verbs;
                       need = POOL_SIZE - length pool1;
                       pool2 = pool1 @ take need others;
                       pool3 = (if length pool2 < POOL_SIZE
                                then pool2 @ take (POOL_SIZE - length pool2)
                                               (filter (\<lambda>i. \<not> py_in ws i pool2) available)
                                else pool2)
                   in Inr (s\<lparr>pool := pool3\<rparr>))))"

subsection \<open>\<^verbatim>\<open>pick_from_pool\<close>\<close>

text \<open>
  The weight of a pool entry, with the floating-point constants read as the rationals
  they denote. \<^verbatim>\<open>random.choices\<close> raises \<^verbatim>\<open>ValueError\<close> when the total weight is not
  positive and otherwise returns a member of the pool; \<open>r\<close> is the random draw.
\<close>

definition weight :: "word \<Rightarrow> error + rat" where
  "weight w =
     e_bind (get_int w ''stage'' 0) (\<lambda>stage.
     e_bind (get_int w ''again'' 0) (\<lambda>again.
     e_bind (get_int w ''streak'' 0) (\<lambda>streak.
       Inr (1 / (1 + of_int stage * (12 / 10))
            * (if again > 0 then 1 + of_int again * (25 / 10) else 1)
            * (if streak = 0 then 12 / 10 else 1)))))"

definition pick_from_pool :: "nat \<Rightarrow> engine \<Rightarrow> error + nat option" where
  "pick_from_pool r s =
     (if pool s = [] then Inr None
      else e_bind (e_map (\<lambda>i. weight (words s ! i)) (pool s))
             (\<lambda>weights. if sum_list weights \<le> 0 then Inl ValueError
                         else Inr (Some (pool s ! (r mod length (pool s))))))"

subsection \<open>\<^verbatim>\<open>next_card\<close>\<close>

text \<open>\<^verbatim>\<open>", ".join(x)\<close> for the value under \<^verbatim>\<open>ru\<close>.\<close>

fun join_sep :: "string list \<Rightarrow> string" where
  "join_sep [] = []"
| "join_sep [x] = x"
| "join_sep (x # y # ys) = x @ '', '' @ join_sep (y # ys)"

fun str_items :: "json list \<Rightarrow> error + string list" where
  "str_items [] = Inr []"
| "str_items (JStr x # xs) = e_bind (str_items xs) (\<lambda>ys. Inr (x # ys))"
| "str_items (v # xs) = Inl TypeError"

fun join_ru :: "json \<Rightarrow> error + string" where
  "join_ru (JList xs) = e_bind (str_items xs) (\<lambda>ys. Inr (join_sep ys))"
| "join_ru (JStr x) = Inr (join_sep (map (\<lambda>c. [c]) x))"
| "join_ru (JObj kvs) = Inr (join_sep (map fst kvs))"
| "join_ru v = Inl TypeError"

definition card :: "bool \<Rightarrow> word \<Rightarrow> error + (json \<times> json)" where
  "card tr_first w =
     (if tr_first
      then e_bind (getitem w ''tr'') (\<lambda>front.
           e_bind (getitem w ''ru'') (\<lambda>ru.
           e_bind (join_ru ru) (\<lambda>back. Inr (front, JStr back))))
      else e_bind (getitem w ''ru'') (\<lambda>ru.
           e_bind (join_ru ru) (\<lambda>front.
           e_bind (getitem w ''tr'') (\<lambda>back. Inr (JStr front, back)))))"

text \<open>
  The result of an operation is the engine it leaves behind together with what the
  caller sees: an exception (\<open>Inl\<close>) or the returned value.
\<close>

definition next_card ::
  "str_methods \<Rightarrow> (word \<Rightarrow> rat) \<Rightarrow> (nat \<Rightarrow> int) \<Rightarrow> nat \<Rightarrow> bool \<Rightarrow> engine
     \<Rightarrow> engine \<times> (error + (json \<times> json) option)" where
  "next_card lib score clk r tr_first s =
     (case refresh_pool lib score clk s of
        Inl e \<Rightarrow> (s, Inl e)
      | Inr s1 \<Rightarrow>
          if pool s1 = [] then (s1, Inr None)
          else (case pick_from_pool r s1 of
                  Inl e \<Rightarrow> (s1, Inl e)
                | Inr None \<Rightarrow> (s1\<lparr>current := None\<rparr>, Inr None)
                | Inr (Some i) \<Rightarrow>
                    let s2 = s1\<lparr>current := Some i\<rparr>
                    in (case get_int (words s2 ! i) ''again'' 0 of
                          Inl e \<Rightarrow> (s2, Inl e)
                        | Inr a \<Rightarrow>
                            let (s3, failed) =
                                  (if a > 0
                                   then save_words
                                          (s2\<lparr>words := (words s2)
                                                [i := AList.update ''again'' (JInt (max 0 (a - 1)))
                                                        (words s2 ! i)]\<rparr>)
                                   else (s2, None))
                            in (case failed of
                                  Some e \<Rightarrow> (s3, Inl e)
                                | None \<Rightarrow>
                                    (s3, e_bind (card tr_first (words s3 ! i))
                                           (\<lambda>c. Inr (Some c)))))))"

subsection \<open>\<^verbatim>\<open>answer_know\<close> and \<^verbatim>\<open>answer_dont_know\<close>\<close>

text \<open>
  The effect of \<^verbatim>\<open>answer_know\<close> on the current word \<open>w\<close> at time \<open>t\<close>. The assignments
  happen one after the other, so an exception leaves the earlier ones in place.
\<close>

definition know_word :: "int \<Rightarrow> word \<Rightarrow> word \<times> error option" where
  "know_word t w =
     (case get_int w ''correct'' 0 of
        Inl e \<Rightarrow> (w, Some e)
      | Inr c \<Rightarrow>
          let w1 = AList.update ''correct'' (JInt (c + 1)) w
          in (case get_int w1 ''streak'' 0 of
                Inl e \<Rightarrow> (w1, Some e)
              | Inr k \<Rightarrow>
                  let w2 = AList.update ''streak'' (JInt (k + 1)) w1
                  in if k + 1 \<ge> STREAK_TO_GRADUATE
                     then let w3 = AList.update ''streak'' (JInt 0) w2
                          in (case get_int w3 ''stage'' 0 of
                                Inl e \<Rightarrow> (w3, Some e)
                              | Inr g \<Rightarrow>
                                  let stage = min MAX_STAGE (g + 1);
                                      w4 = AList.update ''stage'' (JInt stage) w3
                                  in if stage < MAX_STAGE
                                     then (AList.update ''due''
                                             (JInt (t + day_seconds (cooldown_days stage))) w4, None)
                                     else (AList.update ''due'' (JInt 0) w4, None))
                     else (AList.update ''due'' (JInt 0) w2, None)))"

definition dont_know_word :: "word \<Rightarrow> word \<times> error option" where
  "dont_know_word w =
     (let w1 = AList.update ''streak'' (JInt 0) w;
          w2 = AList.update ''due'' (JInt 0) w1
      in (case get_int w2 ''stage'' 0 of
            Inl e \<Rightarrow> (w2, Some e)
          | Inr g \<Rightarrow>
              let w3 = (if g > 0 then AList.update ''stage'' (JInt (g - 1)) w2 else w2)
              in (case get_int w3 ''again'' 0 of
                    Inl e \<Rightarrow> (w3, Some e)
                  | Inr a \<Rightarrow> (AList.update ''again'' (JInt (min 10 (a + 2))) w3, None))))"

text \<open>
  \<^verbatim>\<open>w = self.current; if not w: return\<close> returns for \<^verbatim>\<open>None\<close> and for an empty dict.
  Otherwise the current word is changed in place and the collection is saved.
\<close>

definition answer :: "(word \<Rightarrow> word \<times> error option) \<Rightarrow> engine \<Rightarrow> engine \<times> error option" where
  "answer f s =
     (case current s of
        None \<Rightarrow> (s, None)
      | Some i \<Rightarrow>
          if words s ! i = [] then (s, None)
          else let (w', failed) = f (words s ! i);
                   s1 = s\<lparr>words := (words s)[i := w']\<rparr>
               in (case failed of Some e \<Rightarrow> (s1, Some e) | None \<Rightarrow> save_words s1))"

definition answer_know :: "int \<Rightarrow> engine \<Rightarrow> engine \<times> error option" where
  "answer_know t s = answer (know_word t) s"

definition answer_dont_know :: "engine \<Rightarrow> engine \<times> error option" where
  "answer_dont_know s = answer dont_know_word s"

section \<open>Notions used in the statements\<close>

text \<open>
  The value the coercion loop of \<^verbatim>\<open>normalize_word\<close> stores under \<open>k\<close>:
  \<^verbatim>\<open>int(w.get(k, d))\<close>, or \<open>d\<close> when that raises.
\<close>

definition coerced :: "word \<Rightarrow> string \<Rightarrow> int \<Rightarrow> int" where
  "coerced w k d = (case get_int w k d of Inr n \<Rightarrow> n | Inl e \<Rightarrow> d)"

text \<open>The \<^verbatim>\<open>int\<close> held under a key, if one is held there.\<close>

definition int_field :: "word \<Rightarrow> string \<Rightarrow> int option" where
  "int_field w k = (case map_of w k of Some (JInt n) \<Rightarrow> Some n | _ \<Rightarrow> None)"

text \<open>
  What \<^verbatim>\<open>normalize_word\<close> establishes: \<^verbatim>\<open>tr\<close> and \<^verbatim>\<open>ru\<close> are present, \<^verbatim>\<open>ru\<close> is not a bare
  string, the five numeric fields hold integers, the stage lies in \<open>[0, MAX_STAGE]\<close> and
  \<^verbatim>\<open>again\<close> in \<open>[0, 10]\<close>.
\<close>

definition normalized :: "word \<Rightarrow> bool" where
  "normalized w =
     (has_key w ''tr''
      \<and> (case map_of w ''ru'' of None \<Rightarrow> False | Some (JStr s) \<Rightarrow> False | Some _ \<Rightarrow> True)
      \<and> (case int_field w ''stage'' of Some n \<Rightarrow> 0 \<le> n \<and> n \<le> MAX_STAGE | None \<Rightarrow> False)
      \<and> int_field w ''streak'' \<noteq> None
      \<and> int_field w ''due'' \<noteq> None
      \<and> (case int_field w ''again'' of Some a \<Rightarrow> 0 \<le> a \<and> a \<le> 10 | None \<Rightarrow> False)
      \<and> int_field w ''correct'' \<noteq> None)"

text \<open>The two bounds of the data model.\<close>

definition in_bounds :: "word \<Rightarrow> bool" where
  "in_bounds w =
     ((case int_field w ''stage'' of Some g \<Rightarrow> 0 \<le> g \<and> g \<le> MAX_STAGE | None \<Rightarrow> False)
      \<and> (case int_field w ''again'' of Some a \<Rightarrow> 0 \<le> a \<and> a \<le> 10 | None \<Rightarrow> False))"

text \<open>
  The states of an engine: the one the constructor builds, and every state an operation
  leaves behind, whatever the clock, the random draws, the score and the string methods
  are, and whether or not the operation raised.
\<close>

inductive reachable :: "engine \<Rightarrow> bool" where
  start: "init f bundled wr = Inr s \<Longrightarrow> reachable s"
| card: "reachable s \<Longrightarrow> reachable (fst (next_card lib score clk r tr_first s))"
| know: "reachable s \<Longrightarrow> reachable (fst (answer_know t s))"
| dont_know: "reachable s \<Longrightarrow> reachable (fst (answer_dont_know s))"

text \<open>
  A word is eligible when \<^verbatim>\<open>is_available_now\<close> returns \<^verbatim>\<open>True\<close> for it at the time the clock
  is read for it. The sort key of \<^verbatim>\<open>refresh_pool\<close> is the pair of the stage and the score.
\<close>

definition eligible :: "(nat \<Rightarrow> int) \<Rightarrow> word list \<Rightarrow> nat \<Rightarrow> bool" where
  "eligible clk ws i = (is_available_now (clk i) (ws ! i) = Inr True)"

definition stage_or_zero :: "word \<Rightarrow> int" where
  "stage_or_zero w = (case get_int w ''stage'' 0 of Inr g \<Rightarrow> g | Inl e \<Rightarrow> 0)"

definition pool_key :: "(word \<Rightarrow> rat) \<Rightarrow> word list \<Rightarrow> nat \<Rightarrow> int \<times> rat" where
  "pool_key score ws i = (stage_or_zero (ws ! i), score (ws ! i))"

text \<open>
  The pool as the specification describes it: the eligible words in ascending order of
  \<open>(stage, score)\<close>; up to 14 infinitive verbs of them first; then words that are not
  infinitive verbs, up to \<open>POOL_SIZE\<close> entries; then, when the pool is still short, the
  remaining eligible words not yet included, in the same order. A word is included when
  the pool holds it, that is, its position.
\<close>

definition available_sorted :: "(word \<Rightarrow> rat) \<Rightarrow> (nat \<Rightarrow> int) \<Rightarrow> word list \<Rightarrow> nat list" where
  "available_sorted score clk ws =
     sort_key (pool_key score ws) (filter (eligible clk ws) [0..<length ws])"

definition pool_verbs ::
  "str_methods \<Rightarrow> (word \<Rightarrow> rat) \<Rightarrow> (nat \<Rightarrow> int) \<Rightarrow> word list \<Rightarrow> nat list" where
  "pool_verbs lib score clk ws =
     take 14 (filter (\<lambda>i. verb_word lib (ws ! i)) (available_sorted score clk ws))"

definition pool_others ::
  "str_methods \<Rightarrow> (word \<Rightarrow> rat) \<Rightarrow> (nat \<Rightarrow> int) \<Rightarrow> word list \<Rightarrow> nat list" where
  "pool_others lib score clk ws =
     take (POOL_SIZE - length (pool_verbs lib score clk ws))
       (filter (\<lambda>i. \<not> verb_word lib (ws ! i)) (available_sorted score clk ws))"

definition pool_rest ::
  "str_methods \<Rightarrow> (word \<Rightarrow> rat) \<Rightarrow> (nat \<Rightarrow> int) \<Rightarrow> word list \<Rightarrow> nat list" where
  "pool_rest lib score clk ws =
     (let included = pool_verbs lib score clk ws @ pool_others lib score clk ws
      in if length included < POOL_SIZE
         then take (POOL_SIZE - length included)
                (filter (\<lambda>i. i \<notin> set included) (available_sorted score clk ws))
         else [])"

definition pool_layout ::
  "str_methods \<Rightarrow> (word \<Rightarrow> rat) \<Rightarrow> (nat \<Rightarrow> int) \<Rightarrow> word list \<Rightarrow> nat list" where
  "pool_layout lib score clk ws =
     pool_verbs lib score clk ws @ pool_others lib score clk ws @ pool_rest lib score clk ws"

text \<open>
  The third segment as the source fills it: \<^verbatim>\<open>w not in pool\<close> compares dicts with \<^verbatim>\<open>==\<close>,
  so it leaves out a word when the pool holds the word or a word equal to it.
\<close>

definition pool_rest_by_value ::
  "str_methods \<Rightarrow> (word \<Rightarrow> rat) \<Rightarrow> (nat \<Rightarrow> int) \<Rightarrow> word list \<Rightarrow> nat list" where
  "pool_rest_by_value lib score clk ws =
     (let included = pool_verbs lib score clk ws @ pool_others lib score clk ws
      in if length included < POOL_SIZE
         then take (POOL_SIZE - length included)
                (filter (\<lambda>i. \<not> py_in ws i included) (available_sorted score clk ws))
         else [])"

definition pool_built ::
  "str_methods \<Rightarrow> (word \<Rightarrow> rat) \<Rightarrow> (nat \<Rightarrow> int) \<Rightarrow> word list \<Rightarrow> nat list" where
  "pool_built lib score clk ws =
     pool_verbs lib score clk ws @ pool_others lib score clk ws
       @ pool_rest_by_value lib score clk ws"

text \<open>No two eligible words of the collection are equal.\<close>

definition distinct_eligible :: "(nat \<Rightarrow> int) \<Rightarrow> word list \<Rightarrow> bool" where
  "distinct_eligible clk ws =
     list_all (\<lambda>i. list_all (\<lambda>j. j = i \<or> \<not> eligible clk ws i \<or> \<not> eligible clk ws j
                                   \<or> \<not> py_eq (JObj (ws ! j)) (JObj (ws ! i)))
                      [0..<length ws])
       [0..<length ws]"

text \<open>A collection all of whose strings can be written to the file.\<close>

definition can_encode :: "word list \<Rightarrow> bool" where
  "can_encode ws = encodable (JList (map JObj ws))"

section \<open>Example states\<close>

text \<open>
  \<^verbatim>\<open>str.strip\<close> and \<^verbatim>\<open>str.lower\<close> on ASCII text, where \<^verbatim>\<open>strip\<close> removes the space and the
  characters 9 to 13 and 28 to 31, and \<^verbatim>\<open>lower\<close> changes the letters \<^verbatim>\<open>A\<close> to \<^verbatim>\<open>Z\<close>. The
  examples, whose texts are ASCII, use them.
\<close>

definition ascii_space :: "char \<Rightarrow> bool" where
  "ascii_space c = (c = CHR '' '' \<or> (9 \<le> (of_char c :: nat) \<and> (of_char c :: nat) \<le> 13)
                     \<or> (28 \<le> (of_char c :: nat) \<and> (of_char c :: nat) \<le> 31))"

definition ascii_strip :: "string \<Rightarrow> string" where
  "ascii_strip s = rev (dropWhile ascii_space (rev (dropWhile ascii_space s)))"

definition lower_char :: "char \<Rightarrow> char" where
  "lower_char c =
     (if 65 \<le> (of_char c :: nat) \<and> (of_char c :: nat) \<le> 90
      then char_of ((of_char c :: nat) + 32) else c)"

definition ascii_methods :: str_methods where
  "ascii_methods = \<lparr>py_strip = ascii_strip, py_lower = map lower_char\<rparr>"

text \<open>
  A score for the examples: on ASCII text the exact value of
  \<^verbatim>\<open>spaces * 10.0 + length / 10.0\<close>, less \<^verbatim>\<open>3.0\<close> for an infinitive verb.
\<close>

definition ascii_score :: "word \<Rightarrow> rat" where
  "ascii_score w =
     (case dict_get w ''tr'' (JStr '''') of
        JStr tr \<Rightarrow>
          of_nat (length (filter (\<lambda>c. c = CHR '' '') tr)) * 10 + of_nat (length tr) / 10
            - (if is_infinitive_verb ascii_methods tr then 3 else 0)
      | _ \<Rightarrow> 0)"

text \<open>A word with the seven fields of the persisted format, and an engine holding given words.\<close>

definition word_of :: "string \<Rightarrow> int \<Rightarrow> int \<Rightarrow> int \<Rightarrow> int \<Rightarrow> word" where
  "word_of tr stage streak due again =
     [(''tr'', JStr tr), (''ru'', JList [JStr ''x'']), (''stage'', JInt stage),
      (''streak'', JInt streak), (''due'', JInt due), (''again'', JInt again),
      (''correct'', JInt 0)]"

definition engine_of :: "word list \<Rightarrow> nat option \<Rightarrow> engine" where
  "engine_of ws cur = \<lparr>store = Stored ws, writable = True, words = ws, pool = [], current = cur\<rparr>"

text \<open>An engine with one word to learn and one learned word.\<close>

definition two_word_engine :: engine where
  "two_word_engine = engine_of [word_of ''gitmek'' 0 0 0 3, word_of ''ev'' 6 0 0 0] None"

text \<open>
  An engine whose only word, at stage 5 with streak 2, was drawn by \<^verbatim>\<open>next_card\<close> and then
  answered with \<^verbatim>\<open>answer_know\<close>: the word is at stage 6 and is still the current word.
\<close>

definition graduated_engine :: engine where
  "graduated_engine =
     fst (answer_know 50 (fst (next_card ascii_methods ascii_score (\<lambda>i. 100) 0 True
            (engine_of [word_of ''ev'' 5 2 0 0] None))))"

text \<open>An engine with fifteen eligible infinitive verbs, no two of them equal, and one other word.\<close>

definition verb_engine :: engine where
  "verb_engine =
     engine_of (map (\<lambda>n. word_of ''gitmek'' 0 0 n 0)
                  [0, 1, 2, 3, 4, 5, 6, 7, 8, 9, 10, 11, 12, 13, 14]
                @ [word_of ''ev'' 0 0 0 0]) None"

text \<open>An engine that holds the same infinitive verb fifteen times, and one other word.\<close>

definition same_verbs_engine :: engine where
  "same_verbs_engine =
     engine_of (replicate 15 (word_of ''gitmek'' 0 0 0 0) @ [word_of ''ev'' 0 0 0 0]) None"

text \<open>
  A word whose source text is \<^verbatim>\<open>a\<close> followed by the lone surrogate \<^verbatim>\<open>U+D800\<close>, as
  \<^verbatim>\<open>json.load\<close> reads it from the text \<^verbatim>\<open>"a\ud800"\<close>.
\<close>

definition surrogate_word :: word where
  "surrogate_word = word_of (''a'' @ [CHR 0xED, CHR 0xA0, CHR 0x80]) 0 0 0 0"

section \<open>Evaluation and the error monad\<close>

lemmas eval_defs = word_of_def engine_of_def answer_know_def answer_dont_know_def answer_def
  know_word_def dont_know_word_def save_words_def write_words_def get_int_def dict_get_def
  Let_def MAX_STAGE_def STREAK_TO_GRADUATE_def day_seconds_def cooldown_days_def STAGE_COOLDOWN_DAYS_def

lemmas pool_eval = refresh_pool_def Let_def e_bind_def is_available_now_def
  get_int_def dict_get_def MAX_STAGE_def verb_word_def is_infinitive_verb_def ascii_methods_def
  ascii_strip_def ascii_space_def lower_char_def endswith_def POOL_SIZE_def py_in_def
  ascii_score_def

lemmas card_eval = next_card_def pick_from_pool_def weight_def save_words_def write_words_def
  card_def getitem_def

lemma e_bind_Inr: "e_bind m f = Inr y \<longleftrightarrow> (\<exists>x. m = Inr x \<and> f x = Inr y)"
  by (cases m) (simp_all add: e_bind_def)

lemma e_bind_Inl: "e_bind m f = Inl e \<longleftrightarrow> (m = Inl e \<or> (\<exists>x. m = Inr x \<and> f x = Inl e))"
  by (cases m) (simp_all add: e_bind_def)

lemma e_bind_simps: "e_bind (Inr x) f = f x" "e_bind (Inl e) f = Inl e"
  by (simp_all add: e_bind_def)

lemma e_filter_Inr:
  "e_filter f xs = Inr ys \<longleftrightarrow>
     (\<forall>x \<in> set xs. \<exists>b. f x = Inr b) \<and> ys = filter (\<lambda>x. f x = Inr True) xs"
proof (induction xs arbitrary: ys)
  case Nil
  show ?case by auto
next
  case (Cons x xs)
  show ?case
  proof (cases "f x")
    case (Inl e)
    then show ?thesis by (auto simp: e_bind_def)
  next
    case (Inr b)
    then show ?thesis using Cons.IH
      by (cases "e_filter f xs") (auto simp: e_bind_def)
  qed
qed

lemma e_map_Inr:
  "e_map f xs = Inr ys \<longleftrightarrow> list_all2 (\<lambda>x y. f x = Inr y) xs ys"
proof (induction xs arbitrary: ys)
  case Nil
  show ?case by auto
next
  case (Cons x xs)
  show ?case
  proof (cases "f x")
    case (Inl e)
    then show ?thesis by (auto simp: e_bind_def list_all2_Cons1)
  next
    case (Inr b)
    then show ?thesis using Cons.IH
      by (cases "e_map f xs") (auto simp: e_bind_def list_all2_Cons1)
  qed
qed

lemma e_map_total:
  assumes "\<forall>x \<in> set xs. f x = Inr (g x)"
  shows "e_map f xs = Inr (map g xs)"
  using assms by (induction xs) (simp_all add: e_bind_def)

lemma e_map_id:
  assumes "\<forall>x \<in> set xs. f x = Inr x"
  shows "e_map f xs = Inr xs"
  using e_map_total[of xs f "\<lambda>x. x"] assms by simp

lemma e_map_set:
  assumes "e_map f xs = Inr ys" "y \<in> set ys"
  shows "\<exists>x \<in> set xs. f x = Inr y"
proof -
  from assms(1) have "list_all2 (\<lambda>x y. f x = Inr y) xs ys" by (simp only: e_map_Inr)
  then show ?thesis using assms(2)
    by (induction xs ys rule: list_all2_induct) auto
qed

lemma get_int_update_same: "get_int (AList.update k (JInt n) w) k d = Inr n"
  by (simp add: get_int_def dict_get_def update_conv')

lemma get_int_update_other: "k' \<noteq> k \<Longrightarrow> get_int (AList.update k v w) k' d = get_int w k' d"
  by (simp add: get_int_def dict_get_def update_conv')

lemma int_field_Some: "int_field w k = Some n \<longleftrightarrow> map_of w k = Some (JInt n)"
  by (auto simp: int_field_def split: option.splits json.splits)

lemma int_field_get_int: "int_field w k = Some n \<Longrightarrow> get_int w k d = Inr n"
  by (simp add: int_field_Some get_int_def dict_get_def)

lemma int_field_update:
  "int_field (AList.update k (JInt n) w) k' = (if k' = k then Some n else int_field w k')"
  by (simp add: int_field_def update_conv')

section \<open>Normalization\<close>

lemma map_of_setdefault:
  "map_of (setdefault k d w) k' = (if k' = k \<and> map_of w k = None then Some d else map_of w k')"
  by (simp add: setdefault_def has_key_def update_conv')

lemma coerced_cong: "map_of w k = map_of v k \<Longrightarrow> coerced w k d = coerced v k d"
  unfolding coerced_def get_int_def dict_get_def by simp

lemma coerced_map_of:
  "coerced w k d = (case map_of w k of None \<Rightarrow> d
                    | Some v \<Rightarrow> (case py_int v of Inr n \<Rightarrow> n | Inl e \<Rightarrow> d))"
  by (simp add: coerced_def get_int_def dict_get_def split: option.splits)

lemma map_of_coerce_field:
  "map_of (coerce_field (k, d) v) k' =
     (if k' = k then Some (JInt (coerced v k d)) else map_of v k')"
  by (simp add: coerce_field_def coerced_def update_conv' split: sum.splits)

lemma coerced_coerce_other: "k' \<noteq> k \<Longrightarrow> coerced (coerce_field (k, d) v) k' d' = coerced v k' d'"
  by (rule coerced_cong) (simp add: map_of_coerce_field)

lemma loop_stage: "map_of (fold coerce_field numeric_defaults w) ''stage'' = Some (JInt (coerced w ''stage'' 0))"
  unfolding numeric_defaults_def by (simp add: map_of_coerce_field)

lemma loop_streak: "map_of (fold coerce_field numeric_defaults w) ''streak'' = Some (JInt (coerced w ''streak'' 0))"
  unfolding numeric_defaults_def by (simp add: map_of_coerce_field coerced_coerce_other)

lemma loop_due: "map_of (fold coerce_field numeric_defaults w) ''due'' = Some (JInt (coerced w ''due'' 0))"
  unfolding numeric_defaults_def by (simp add: map_of_coerce_field coerced_coerce_other)

lemma loop_again: "map_of (fold coerce_field numeric_defaults w) ''again'' = Some (JInt (coerced w ''again'' 0))"
  unfolding numeric_defaults_def by (simp add: map_of_coerce_field coerced_coerce_other)

lemma loop_correct: "map_of (fold coerce_field numeric_defaults w) ''correct'' = Some (JInt (coerced w ''correct'' 0))"
  unfolding numeric_defaults_def by (simp add: map_of_coerce_field coerced_coerce_other)

lemma loop_other: "k \<notin> {''stage'', ''streak'', ''due'', ''again'', ''correct''} \<Longrightarrow>
   map_of (fold coerce_field numeric_defaults w) k = map_of w k"
  unfolding numeric_defaults_def by (simp add: map_of_coerce_field)

lemma normalize_word_steps:
  assumes "normalize_word w = Inr w'"
  obtains w3 c where
    "map_of w3 ''stage'' \<noteq> None"
    "\<And>k. k \<noteq> ''stage'' \<Longrightarrow> map_of w3 k =
        map_of (setdefault ''ru'' (JList []) (setdefault ''tr'' (JStr '''') w)) k"
    "has_key w ''stage'' \<Longrightarrow> map_of w3 ''stage'' = map_of w ''stage''"
    "\<not> has_key w ''stage'' \<Longrightarrow> \<exists>i. py_int (dict_get w ''interval'' (JInt 1)) = Inr i
        \<and> map_of w3 ''stage'' = Some (JInt (min MAX_STAGE (max 0 (i - 1))))"
    "py_int (dict_get w ''correct'' (JInt 0)) = Inr c"
    "w' = (let w7 = setdefault ''correct'' (JInt c)
                     (setdefault ''again'' (JInt 0) (setdefault ''due'' (JInt 0)
                        (setdefault ''streak'' (JInt 0) w3)));
               w8 = fold coerce_field numeric_defaults w7;
               w9 = AList.update ''stage'' (JInt (min MAX_STAGE (max 0 (coerced w7 ''stage'' 0)))) w8;
               w10 = AList.update ''again'' (JInt (min 10 (max 0 (coerced w7 ''again'' 0)))) w9
           in case map_of w10 ''ru'' of Some (JStr s) \<Rightarrow> AList.update ''ru'' (JList [JStr s]) w10
              | _ \<Rightarrow> w10)"
proof -
  define w2 where "w2 = setdefault ''ru'' (JList []) (setdefault ''tr'' (JStr '''') w)"
  define m where "m = (if \<not> has_key w2 ''stage''
            then e_bind (py_int (dict_get w2 ''interval'' (JInt 1)))
                   (\<lambda>interval. Inr (AList.update ''stage''
                                     (JInt (min MAX_STAGE (max 0 (interval - 1)))) w2))
            else Inr w2)"
  have hk: "has_key w2 k = has_key w k" if "k \<noteq> ''tr''" "k \<noteq> ''ru''" for k
    using that by (simp add: w2_def has_key_def map_of_setdefault)
  have dg: "dict_get w2 k d = dict_get w k d" if "k \<noteq> ''tr''" "k \<noteq> ''ru''" for k d
    using that by (simp add: w2_def dict_get_def map_of_setdefault)
  from assms obtain w3 where w3: "m = Inr w3"
    and rest: "(let w4 = setdefault ''streak'' (JInt 0) w3;
                  w5 = setdefault ''due'' (JInt 0) w4;
                  w6 = setdefault ''again'' (JInt 0) w5
              in e_bind (py_int (dict_get w6 ''correct'' (JInt 0)))
                   (\<lambda>c.
                      let w7 = setdefault ''correct'' (JInt c) w6;
                          w8 = fold coerce_field numeric_defaults w7
                      in e_bind (item_int w8 ''stage'')
                           (\<lambda>st.
                              let w9 = AList.update ''stage'' (JInt (min MAX_STAGE (max 0 st))) w8
                              in e_bind (item_int w9 ''again'')
                                   (\<lambda>ag.
                                      let w10 = AList.update ''again'' (JInt (min 10 (max 0 ag))) w9
                                      in e_bind (getitem w10 ''ru'')
                                           (\<lambda>ru. Inr (case ru of
                                                         JStr s \<Rightarrow> AList.update ''ru'' (JList [JStr s]) w10
                                                       | _ \<Rightarrow> w10)))))) = Inr w'"
    unfolding normalize_word_def Let_def m_def w2_def e_bind_Inr by blast
  define w6 where "w6 = setdefault ''again'' (JInt 0) (setdefault ''due'' (JInt 0)
                        (setdefault ''streak'' (JInt 0) w3))"
  from rest obtain c where c: "py_int (dict_get w6 ''correct'' (JInt 0)) = Inr c"
    and rest2: "(let w7 = setdefault ''correct'' (JInt c) w6;
                          w8 = fold coerce_field numeric_defaults w7
                      in e_bind (item_int w8 ''stage'')
                           (\<lambda>st.
                              let w9 = AList.update ''stage'' (JInt (min MAX_STAGE (max 0 st))) w8
                              in e_bind (item_int w9 ''again'')
                                   (\<lambda>ag.
                                      let w10 = AList.update ''again'' (JInt (min 10 (max 0 ag))) w9
                                      in e_bind (getitem w10 ''ru'')
                                           (\<lambda>ru. Inr (case ru of
                                                         JStr s \<Rightarrow> AList.update ''ru'' (JList [JStr s]) w10
                                                       | _ \<Rightarrow> w10))))) = Inr w'"
    unfolding Let_def w6_def e_bind_Inr by blast
  define w7 where "w7 = setdefault ''correct'' (JInt c) w6"
  define w8 where "w8 = fold coerce_field numeric_defaults w7"
  have st: "item_int w8 ''stage'' = Inr (coerced w7 ''stage'' 0)"
    by (simp add: item_int_def w8_def loop_stage)
  define w9 where "w9 = AList.update ''stage'' (JInt (min MAX_STAGE (max 0 (coerced w7 ''stage'' 0)))) w8"
  have ag: "item_int w9 ''again'' = Inr (coerced w7 ''again'' 0)"
    by (simp add: item_int_def w9_def w8_def update_conv' loop_again)
  define w10 where "w10 = AList.update ''again'' (JInt (min 10 (max 0 (coerced w7 ''again'' 0)))) w9"
  from rest2 have rest3: "e_bind (getitem w10 ''ru'')
       (\<lambda>ru. Inr (case ru of JStr s \<Rightarrow> AList.update ''ru'' (JList [JStr s]) w10 | _ \<Rightarrow> w10)) = Inr w'"
    unfolding Let_def w7_def[symmetric] w8_def[symmetric] w10_def w9_def
    by (simp add: st ag[unfolded w9_def] e_bind_def)
  then have w': "w' = (case map_of w10 ''ru'' of Some (JStr s) \<Rightarrow> AList.update ''ru'' (JList [JStr s]) w10
              | _ \<Rightarrow> w10)"
    by (auto simp: e_bind_Inr getitem_def split: option.splits json.splits)
  have m3: "map_of w3 k = map_of w2 k" if "k \<noteq> ''stage''" for k
    using w3 that by (auto simp: m_def e_bind_Inr update_conv' split: if_splits)
  have s3: "map_of w3 ''stage'' \<noteq> None"
    using w3 by (auto simp: m_def e_bind_Inr update_conv' has_key_def split: if_splits)
  have s3a: "map_of w3 ''stage'' = map_of w ''stage''" if "has_key w ''stage''"
    using w3 that hk[of "''stage''"] by (auto simp: m_def w2_def map_of_setdefault split: if_splits)
  have s3b: "\<exists>i. py_int (dict_get w ''interval'' (JInt 1)) = Inr i
        \<and> map_of w3 ''stage'' = Some (JInt (min MAX_STAGE (max 0 (i - 1))))" if "\<not> has_key w ''stage''"
    using w3 that hk[of "''stage''"] dg[of "''interval''"]
    by (auto simp: m_def e_bind_Inr update_conv' split: if_splits)
  have "map_of w6 ''correct'' = map_of w ''correct''"
    by (simp add: w6_def map_of_setdefault m3 w2_def)
  then have c': "py_int (dict_get w ''correct'' (JInt 0)) = Inr c"
    using c by (simp add: dict_get_def)
  show thesis
    apply (rule that[of w3 c])
    subgoal by (rule s3)
    subgoal using m3 by (simp add: w2_def)
    subgoal by (rule s3a)
    subgoal by (rule s3b)
    subgoal by (rule c')
    subgoal unfolding Let_def w' w10_def w9_def w8_def w7_def w6_def by (rule refl)
    done
qed

lemma normalize_word_map_of:
  assumes "normalize_word w = Inr w'"
  obtains w3 where
    "map_of w3 ''stage'' \<noteq> None"
    "\<And>k. k \<noteq> ''stage'' \<Longrightarrow> map_of w3 k =
        map_of (setdefault ''ru'' (JList []) (setdefault ''tr'' (JStr '''') w)) k"
    "has_key w ''stage'' \<Longrightarrow> map_of w3 ''stage'' = map_of w ''stage''"
    "\<not> has_key w ''stage'' \<Longrightarrow> \<exists>i. py_int (dict_get w ''interval'' (JInt 1)) = Inr i
        \<and> map_of w3 ''stage'' = Some (JInt (min MAX_STAGE (max 0 (i - 1))))"
    "\<And>k. map_of w' k =
       (if k = ''ru'' then (case map_of w3 ''ru'' of Some (JStr s) \<Rightarrow> Some (JList [JStr s]) | v \<Rightarrow> v)
        else if k = ''stage'' then Some (JInt (min MAX_STAGE (max 0 (coerced w3 ''stage'' 0))))
        else if k = ''again'' then Some (JInt (min 10 (max 0 (coerced w3 ''again'' 0))))
        else if k = ''streak'' \<or> k = ''due'' \<or> k = ''correct'' then Some (JInt (coerced w3 k 0))
        else map_of w3 k)"
proof -
  from assms obtain w3 c where
    s3: "map_of w3 ''stage'' \<noteq> None"
    and m3: "\<And>k. k \<noteq> ''stage'' \<Longrightarrow> map_of w3 k =
        map_of (setdefault ''ru'' (JList []) (setdefault ''tr'' (JStr '''') w)) k"
    and s3a: "has_key w ''stage'' \<Longrightarrow> map_of w3 ''stage'' = map_of w ''stage''"
    and s3b: "\<not> has_key w ''stage'' \<Longrightarrow> \<exists>i. py_int (dict_get w ''interval'' (JInt 1)) = Inr i
        \<and> map_of w3 ''stage'' = Some (JInt (min MAX_STAGE (max 0 (i - 1))))"
    and c: "py_int (dict_get w ''correct'' (JInt 0)) = Inr c"
    and w': "w' = (let w7 = setdefault ''correct'' (JInt c)
                     (setdefault ''again'' (JInt 0) (setdefault ''due'' (JInt 0)
                        (setdefault ''streak'' (JInt 0) w3)));
               w8 = fold coerce_field numeric_defaults w7;
               w9 = AList.update ''stage'' (JInt (min MAX_STAGE (max 0 (coerced w7 ''stage'' 0)))) w8;
               w10 = AList.update ''again'' (JInt (min 10 (max 0 (coerced w7 ''again'' 0)))) w9
           in case map_of w10 ''ru'' of Some (JStr s) \<Rightarrow> AList.update ''ru'' (JList [JStr s]) w10
              | _ \<Rightarrow> w10)"
    by (rule normalize_word_steps) (rule that; assumption)
  define w7 where "w7 = setdefault ''correct'' (JInt c)
                     (setdefault ''again'' (JInt 0) (setdefault ''due'' (JInt 0)
                        (setdefault ''streak'' (JInt 0) w3)))"
  define w8 where "w8 = fold coerce_field numeric_defaults w7"
  define w10 where "w10 = AList.update ''again'' (JInt (min 10 (max 0 (coerced w7 ''again'' 0))))
      (AList.update ''stage'' (JInt (min MAX_STAGE (max 0 (coerced w7 ''stage'' 0)))) w8)"
  have w'': "w' = (case map_of w10 ''ru'' of Some (JStr s) \<Rightarrow> AList.update ''ru'' (JList [JStr s]) w10
              | _ \<Rightarrow> w10)"
    unfolding w' Let_def w10_def w8_def w7_def by (rule refl)
  have c3: "map_of w3 ''correct'' = map_of w ''correct''"
    by (simp add: m3 map_of_setdefault)
  have c0: "map_of w ''correct'' = None \<Longrightarrow> c = 0"
    using c by (simp add: dict_get_def)
  have m7: "map_of w7 k = (if map_of w3 k = None then
                (if k = ''correct'' then Some (JInt c)
                 else if k = ''again'' \<or> k = ''due'' \<or> k = ''streak'' then Some (JInt 0)
                 else None) else map_of w3 k)" for k
    by (auto simp: w7_def map_of_setdefault)
  have co: "coerced w7 k 0 = coerced w3 k 0"
    if "k = ''stage'' \<or> k = ''streak'' \<or> k = ''due'' \<or> k = ''again'' \<or> k = ''correct''" for k
    using that c0 c3 by (auto simp: coerced_map_of m7 split: option.splits)
  have m8: "map_of w8 k =
     (if k = ''stage'' \<or> k = ''streak'' \<or> k = ''due'' \<or> k = ''again'' \<or> k = ''correct''
      then Some (JInt (coerced w3 k 0)) else map_of w3 k)" for k
  proof (cases "k = ''stage'' \<or> k = ''streak'' \<or> k = ''due'' \<or> k = ''again'' \<or> k = ''correct''")
    case True
    then show ?thesis
      using loop_stage[of w7] loop_streak[of w7] loop_due[of w7] loop_again[of w7] loop_correct[of w7]
      by (auto simp: w8_def co)
  next
    case False
    then have "map_of w8 k = map_of w7 k"
      unfolding w8_def by (intro loop_other) simp
    with False show ?thesis by (simp add: m7)
  qed
  have m10: "map_of w10 k =
       (if k = ''stage'' then Some (JInt (min MAX_STAGE (max 0 (coerced w3 ''stage'' 0))))
        else if k = ''again'' then Some (JInt (min 10 (max 0 (coerced w3 ''again'' 0))))
        else if k = ''streak'' \<or> k = ''due'' \<or> k = ''correct'' then Some (JInt (coerced w3 k 0))
        else map_of w3 k)" for k
    by (simp add: w10_def update_conv' m8 co)
  have final: "map_of w' k =
       (if k = ''ru'' then (case map_of w3 ''ru'' of Some (JStr s) \<Rightarrow> Some (JList [JStr s]) | v \<Rightarrow> v)
        else if k = ''stage'' then Some (JInt (min MAX_STAGE (max 0 (coerced w3 ''stage'' 0))))
        else if k = ''again'' then Some (JInt (min 10 (max 0 (coerced w3 ''again'' 0))))
        else if k = ''streak'' \<or> k = ''due'' \<or> k = ''correct'' then Some (JInt (coerced w3 k 0))
        else map_of w3 k)" for k
  proof -
    have ru10: "map_of w10 ''ru'' = map_of w3 ''ru''" by (simp add: m10)
    show ?thesis
      unfolding w'' ru10
      by (cases "map_of w3 ''ru''"; cases "the (map_of w3 ''ru'')")
         (simp_all add: update_conv' m10)
  qed
  show thesis
    by (rule that[of w3]) (fact s3 m3 s3a s3b final)+
qed

lemma normalizedD:
  assumes "normalized w"
  obtains t r g k d a c where
    "map_of w ''tr'' = Some t" "map_of w ''ru'' = Some r" "\<And>s. r \<noteq> JStr s"
    "map_of w ''stage'' = Some (JInt g)" "0 \<le> g" "g \<le> MAX_STAGE"
    "map_of w ''streak'' = Some (JInt k)" "map_of w ''due'' = Some (JInt d)"
    "map_of w ''again'' = Some (JInt a)" "0 \<le> a" "a \<le> 10"
    "map_of w ''correct'' = Some (JInt c)"
proof -
  from assms obtain t where t: "map_of w ''tr'' = Some t"
    by (auto simp: normalized_def has_key_def)
  from assms obtain r where r: "map_of w ''ru'' = Some r" "\<And>s. r \<noteq> JStr s"
    by (auto simp: normalized_def split: option.splits json.splits)
  from assms obtain g where g: "map_of w ''stage'' = Some (JInt g)" "0 \<le> g" "g \<le> MAX_STAGE"
    by (auto simp: normalized_def int_field_Some split: option.splits)
  from assms obtain a where a: "map_of w ''again'' = Some (JInt a)" "0 \<le> a" "a \<le> 10"
    by (auto simp: normalized_def int_field_Some split: option.splits)
  from assms obtain k d c where o: "map_of w ''streak'' = Some (JInt k)"
    "map_of w ''due'' = Some (JInt d)" "map_of w ''correct'' = Some (JInt c)"
    by (auto simp: normalized_def int_field_Some)
  from t r g o(1) o(2) a o(3) show thesis by (rule that)
qed

text \<open>Every word that \<^verbatim>\<open>normalize_word\<close> returns is normalized.\<close>

lemma normalize_word_normalized:
  assumes "normalize_word w = Inr w'"
  shows "normalized w'"
proof -
  from assms obtain w3 where
    m3: "\<And>k. k \<noteq> ''stage'' \<Longrightarrow> map_of w3 k =
        map_of (setdefault ''ru'' (JList []) (setdefault ''tr'' (JStr '''') w)) k"
    and m: "\<And>k. map_of w' k =
       (if k = ''ru'' then (case map_of w3 ''ru'' of Some (JStr s) \<Rightarrow> Some (JList [JStr s]) | v \<Rightarrow> v)
        else if k = ''stage'' then Some (JInt (min MAX_STAGE (max 0 (coerced w3 ''stage'' 0))))
        else if k = ''again'' then Some (JInt (min 10 (max 0 (coerced w3 ''again'' 0))))
        else if k = ''streak'' \<or> k = ''due'' \<or> k = ''correct'' then Some (JInt (coerced w3 k 0))
        else map_of w3 k)"
    by (rule normalize_word_map_of) (rule that; assumption)
  have tr: "map_of w3 ''tr'' \<noteq> None" by (simp add: m3 map_of_setdefault)
  have ru: "map_of w3 ''ru'' \<noteq> None" by (simp add: m3 map_of_setdefault)
  have "has_key w' ''tr''" using tr by (simp add: has_key_def m)
  moreover have "case map_of w' ''ru'' of None \<Rightarrow> False | Some (JStr s) \<Rightarrow> False | Some _ \<Rightarrow> True"
    using ru by (simp add: m split: option.splits json.splits)
  moreover have "int_field w' ''stage'' = Some (min MAX_STAGE (max 0 (coerced w3 ''stage'' 0)))"
    "int_field w' ''again'' = Some (min 10 (max 0 (coerced w3 ''again'' 0)))"
    "int_field w' ''streak'' \<noteq> None" "int_field w' ''due'' \<noteq> None" "int_field w' ''correct'' \<noteq> None"
    by (simp_all add: int_field_def m)
  ultimately show ?thesis
    by (simp add: normalized_def MAX_STAGE_def)
qed

text \<open>
  The fields of the word that \<^verbatim>\<open>normalize_word\<close> returns, when it returns: the defaults for
  \<^verbatim>\<open>tr\<close> and \<^verbatim>\<open>ru\<close>, the wrapping of a bare string, the coercion of the numeric fields with
  their defaults, the two clamps, and the migration from \<^verbatim>\<open>interval\<close>.
\<close>

lemma normalize_word_fields:
  assumes "normalize_word w = Inr w'"
  shows "map_of w' ''tr'' = Some (dict_get w ''tr'' (JStr ''''))"
    and "map_of w' ''ru'' = Some (case dict_get w ''ru'' (JList []) of
                                   JStr s \<Rightarrow> JList [JStr s] | v \<Rightarrow> v)"
    and "has_key w ''stage'' \<Longrightarrow>
           map_of w' ''stage'' = Some (JInt (min MAX_STAGE (max 0 (coerced w ''stage'' 0))))"
    and "\<not> has_key w ''stage'' \<Longrightarrow>
           \<exists>i. py_int (dict_get w ''interval'' (JInt 1)) = Inr i
             \<and> map_of w' ''stage'' = Some (JInt (min MAX_STAGE (max 0 (i - 1))))"
    and "map_of w' ''streak'' = Some (JInt (coerced w ''streak'' 0))"
    and "map_of w' ''due'' = Some (JInt (coerced w ''due'' 0))"
    and "map_of w' ''again'' = Some (JInt (min 10 (max 0 (coerced w ''again'' 0))))"
    and "map_of w' ''correct'' = Some (JInt (coerced w ''correct'' 0))"
    and "k \<notin> {''tr'', ''ru'', ''stage'', ''streak'', ''due'', ''again'', ''correct''} \<Longrightarrow>
           map_of w' k = map_of w k"
proof -
  from assms obtain w3 where
    m3: "\<And>k. k \<noteq> ''stage'' \<Longrightarrow> map_of w3 k =
        map_of (setdefault ''ru'' (JList []) (setdefault ''tr'' (JStr '''') w)) k"
    and s3a: "has_key w ''stage'' \<Longrightarrow> map_of w3 ''stage'' = map_of w ''stage''"
    and s3b: "\<not> has_key w ''stage'' \<Longrightarrow> \<exists>i. py_int (dict_get w ''interval'' (JInt 1)) = Inr i
        \<and> map_of w3 ''stage'' = Some (JInt (min MAX_STAGE (max 0 (i - 1))))"
    and m: "\<And>k. map_of w' k =
       (if k = ''ru'' then (case map_of w3 ''ru'' of Some (JStr s) \<Rightarrow> Some (JList [JStr s]) | v \<Rightarrow> v)
        else if k = ''stage'' then Some (JInt (min MAX_STAGE (max 0 (coerced w3 ''stage'' 0))))
        else if k = ''again'' then Some (JInt (min 10 (max 0 (coerced w3 ''again'' 0))))
        else if k = ''streak'' \<or> k = ''due'' \<or> k = ''correct'' then Some (JInt (coerced w3 k 0))
        else map_of w3 k)"
    by (rule normalize_word_map_of) (rule that; assumption)
  have same: "map_of w3 k = map_of w k" if "k \<noteq> ''stage''" "k \<noteq> ''tr''" "k \<noteq> ''ru''" for k
    using that by (simp add: m3 map_of_setdefault)
  have co: "coerced w3 k 0 = coerced w k 0" if "k \<noteq> ''stage''" "k \<noteq> ''tr''" "k \<noteq> ''ru''" for k
    using that by (intro coerced_cong same)
  show "map_of w' ''tr'' = Some (dict_get w ''tr'' (JStr ''''))"
    by (simp add: m m3 map_of_setdefault dict_get_def split: option.splits)
  have ru3: "map_of w3 ''ru'' = Some (dict_get w ''ru'' (JList []))"
    by (simp add: m3 map_of_setdefault dict_get_def split: option.splits)
  show "map_of w' ''ru'' = Some (case dict_get w ''ru'' (JList []) of
                                   JStr s \<Rightarrow> JList [JStr s] | v \<Rightarrow> v)"
    by (simp add: m ru3 split: json.splits)
  show "map_of w' ''stage'' = Some (JInt (min MAX_STAGE (max 0 (coerced w ''stage'' 0))))"
    if "has_key w ''stage''"
    using s3a[OF that] coerced_cong[of w3 "''stage''" w 0] by (simp add: m)
  show "\<exists>i. py_int (dict_get w ''interval'' (JInt 1)) = Inr i
             \<and> map_of w' ''stage'' = Some (JInt (min MAX_STAGE (max 0 (i - 1))))"
    if "\<not> has_key w ''stage''"
  proof -
    from s3b[OF that] obtain i where i: "py_int (dict_get w ''interval'' (JInt 1)) = Inr i"
      "map_of w3 ''stage'' = Some (JInt (min MAX_STAGE (max 0 (i - 1))))" by blast
    then have "coerced w3 ''stage'' 0 = min MAX_STAGE (max 0 (i - 1))"
      by (simp add: coerced_map_of)
    with i(1) show ?thesis by (simp add: m MAX_STAGE_def)
  qed
  show "map_of w' ''streak'' = Some (JInt (coerced w ''streak'' 0))"
    "map_of w' ''due'' = Some (JInt (coerced w ''due'' 0))"
    "map_of w' ''again'' = Some (JInt (min 10 (max 0 (coerced w ''again'' 0))))"
    "map_of w' ''correct'' = Some (JInt (coerced w ''correct'' 0))"
    by (simp_all add: m co)
  show "map_of w' k = map_of w k"
    if "k \<notin> {''tr'', ''ru'', ''stage'', ''streak'', ''due'', ''again'', ''correct''}"
    using that by (simp add: m same)
qed

text \<open>
  \<^verbatim>\<open>normalize_word\<close> returns exactly when the two unguarded calls of \<^verbatim>\<open>int\<close> succeed.
\<close>

lemma normalize_word_returns:
  assumes st: "has_key w ''stage'' \<or> (\<exists>i. py_int (dict_get w ''interval'' (JInt 1)) = Inr i)"
    and co: "\<exists>c. py_int (dict_get w ''correct'' (JInt 0)) = Inr c"
  shows "\<exists>w'. normalize_word w = Inr w'"
proof -
  define w2 where "w2 = setdefault ''ru'' (JList []) (setdefault ''tr'' (JStr '''') w)"
  define m where "m = (if \<not> has_key w2 ''stage''
            then e_bind (py_int (dict_get w2 ''interval'' (JInt 1)))
                   (\<lambda>interval. Inr (AList.update ''stage''
                                     (JInt (min MAX_STAGE (max 0 (interval - 1)))) w2))
            else Inr w2)"
  have hk: "has_key w2 ''stage'' = has_key w ''stage''"
    by (simp add: w2_def has_key_def map_of_setdefault)
  have dg: "dict_get w2 ''interval'' d = dict_get w ''interval'' d" for d
    by (simp add: w2_def dict_get_def map_of_setdefault)
  have "\<exists>w3. m = Inr w3"
  proof (cases "has_key w ''stage''")
    case True
    then show ?thesis by (simp add: m_def hk)
  next
    case False
    with st obtain i where "py_int (dict_get w ''interval'' (JInt 1)) = Inr i" by blast
    with False show ?thesis by (simp add: m_def hk dg e_bind_def)
  qed
  then obtain w3 where w3: "m = Inr w3" by blast
  then have m3: "map_of w3 k = map_of w2 k" if "k \<noteq> ''stage''" for k
    using that by (auto simp: m_def e_bind_Inr update_conv' split: if_splits)
  define w6 where "w6 = setdefault ''again'' (JInt 0) (setdefault ''due'' (JInt 0)
                        (setdefault ''streak'' (JInt 0) w3))"
  have "map_of w6 ''correct'' = map_of w ''correct''"
    by (simp add: w6_def map_of_setdefault m3 w2_def)
  with co obtain c where c: "py_int (dict_get w6 ''correct'' (JInt 0)) = Inr c"
    by (auto simp: dict_get_def)
  define w7 where "w7 = setdefault ''correct'' (JInt c) w6"
  define w8 where "w8 = fold coerce_field numeric_defaults w7"
  obtain g where g: "item_int w8 ''stage'' = Inr g"
    by (simp add: item_int_def w8_def loop_stage)
  define w9 where "w9 = AList.update ''stage'' (JInt (min MAX_STAGE (max 0 g))) w8"
  obtain a where a: "item_int w9 ''again'' = Inr a"
    by (simp add: item_int_def w9_def w8_def update_conv' loop_again)
  define w10 where "w10 = AList.update ''again'' (JInt (min 10 (max 0 a))) w9"
  have "map_of w10 ''ru'' = map_of w2 ''ru''"
    using loop_other[of "''ru''" w7]
    by (simp add: w10_def w9_def w8_def w7_def w6_def update_conv' map_of_setdefault m3)
  then have "map_of w10 ''ru'' \<noteq> None" by (simp add: w2_def map_of_setdefault)
  then obtain r where r: "getitem w10 ''ru'' = Inr r" by (auto simp: getitem_def)
  have "normalize_word w = Inr (case r of JStr s \<Rightarrow> AList.update ''ru'' (JList [JStr s]) w10 | _ \<Rightarrow> w10)"
    unfolding normalize_word_def Let_def w2_def[symmetric] m_def[symmetric] w3 e_bind_simps
      w6_def[symmetric] c w7_def[symmetric] w8_def[symmetric] g w9_def[symmetric] a
      w10_def[symmetric] r
    by (rule refl)
  then show ?thesis by blast
qed

lemma normalize_word_failure_iff:
  "(\<exists>e. normalize_word w = Inl e) \<longleftrightarrow>
     (\<not> has_key w ''stage'' \<and> (\<exists>e. py_int (dict_get w ''interval'' (JInt 1)) = Inl e))
     \<or> (\<exists>e. py_int (dict_get w ''correct'' (JInt 0)) = Inl e)"
proof (cases "normalize_word w")
  case (Inl e)
  have "\<not> (has_key w ''stage'' \<or> (\<exists>i. py_int (dict_get w ''interval'' (JInt 1)) = Inr i))
      \<or> \<not> (\<exists>c. py_int (dict_get w ''correct'' (JInt 0)) = Inr c)"
    using normalize_word_returns[of w] Inl by auto
  then have "(\<not> has_key w ''stage'' \<and> (\<exists>e. py_int (dict_get w ''interval'' (JInt 1)) = Inl e))
     \<or> (\<exists>e. py_int (dict_get w ''correct'' (JInt 0)) = Inl e)"
    by (cases "py_int (dict_get w ''interval'' (JInt 1))";
        cases "py_int (dict_get w ''correct'' (JInt 0))") auto
  with Inl show ?thesis by simp
next
  case (Inr w')
  from normalize_word_steps[OF Inr] obtain c where
    "py_int (dict_get w ''correct'' (JInt 0)) = Inr c" by metis
  moreover have "\<exists>i. py_int (dict_get w ''interval'' (JInt 1)) = Inr i" if "\<not> has_key w ''stage''"
    using normalize_word_fields(4)[OF Inr that] by blast
  ultimately show ?thesis using Inr by auto
qed

text \<open>A normalized word is left as it is.\<close>

lemma setdefault_present: "has_key w k \<Longrightarrow> setdefault k d w = w"
  by (simp add: setdefault_def)

lemma coerce_field_int: "map_of w k = Some (JInt n) \<Longrightarrow> coerce_field (k, d) w = w"
  by (simp add: coerce_field_def get_int_def dict_get_def update_triv)

lemma normalize_word_idem:
  assumes "normalized w"
  shows "normalize_word w = Inr w"
proof -
  from assms obtain t r g k d a c where
    t: "map_of w ''tr'' = Some t" and r: "map_of w ''ru'' = Some r" "\<And>s. r \<noteq> JStr s"
    and g: "map_of w ''stage'' = Some (JInt g)" "0 \<le> g" "g \<le> MAX_STAGE"
    and k: "map_of w ''streak'' = Some (JInt k)" and d: "map_of w ''due'' = Some (JInt d)"
    and a: "map_of w ''again'' = Some (JInt a)" "0 \<le> a" "a \<le> 10"
    and c: "map_of w ''correct'' = Some (JInt c)"
    by (rule normalizedD) (rule that; assumption)
  have sd: "setdefault ''tr'' x w = w" "setdefault ''ru'' x w = w" "setdefault ''streak'' x w = w"
    "setdefault ''due'' x w = w" "setdefault ''again'' x w = w" "setdefault ''correct'' x w = w" for x
    using t r k d a c by (simp_all add: setdefault_present has_key_def)
  have hs: "has_key w ''stage''" using g by (simp add: has_key_def)
  have pc: "py_int (dict_get w ''correct'' (JInt 0)) = Inr c" using c by (simp add: dict_get_def)
  have loop: "fold coerce_field numeric_defaults w = w"
    using g k d a c by (simp add: numeric_defaults_def coerce_field_int)
  have ig: "item_int w ''stage'' = Inr g" "item_int w ''again'' = Inr a"
    using g a by (simp_all add: item_int_def)
  have clamp: "AList.update ''stage'' (JInt (min MAX_STAGE (max 0 g))) w = w"
    "AList.update ''again'' (JInt (min 10 (max 0 a))) w = w"
    using g a by (simp_all add: update_triv min_def max_def)
  have gi: "getitem w ''ru'' = Inr r" using r by (simp add: getitem_def)
  have fin: "(case r of JStr s \<Rightarrow> AList.update ''ru'' (JList [JStr s]) w | _ \<Rightarrow> w) = w"
    using r(2) by (cases r) auto
  show ?thesis
    unfolding normalize_word_def Let_def
    by (simp add: sd hs pc loop ig clamp gi fin e_bind_def cong del: json.case_cong_weak)
qed

text \<open>
  C7. The claim says that normalization replaces an invalid value of \<^verbatim>\<open>correct\<close> by 0 and
  never fails. In the code \<^verbatim>\<open>int(w.get("correct", 0))\<close> is evaluated as the argument of
  \<^verbatim>\<open>setdefault\<close>, before the guarded loop that would have replaced the value, so a record
  whose \<^verbatim>\<open>correct\<close> is the string \<^verbatim>\<open>many\<close> makes \<^verbatim>\<open>normalize_word\<close> raise \<^verbatim>\<open>ValueError\<close>; and
  a record without \<^verbatim>\<open>stage\<close> whose \<^verbatim>\<open>interval\<close> is \<^verbatim>\<open>null\<close> makes it raise \<^verbatim>\<open>TypeError\<close>.
\<close>

theorem normalize_word_raises:
  "normalize_word [(''tr'', JStr ''ev''), (''ru'', JList [JStr ''dom'']), (''stage'', JInt 0),
                   (''correct'', JStr ''many'')] = Inl ValueError
   \<and> normalize_word [(''tr'', JStr ''ev''), (''interval'', JNull)] = Inl TypeError"
  by (simp add: normalize_word_def setdefault_def has_key_def dict_get_def e_bind_def Let_def
        int_of_str_def strip_def is_space_def is_digit_def)

section \<open>The answer operations\<close>

lemma dont_know_word_effect:
  assumes "get_int w ''stage'' 0 = Inr g" "get_int w ''again'' 0 = Inr a"
  shows "snd (dont_know_word w) = None"
    "get_int (fst (dont_know_word w)) ''streak'' 0 = Inr 0"
    "get_int (fst (dont_know_word w)) ''due'' 0 = Inr 0"
    "get_int (fst (dont_know_word w)) ''stage'' 0 = Inr (if g > 0 then g - 1 else g)"
    "get_int (fst (dont_know_word w)) ''again'' 0 = Inr (min 10 (a + 2))"
  using assms
  by (simp_all add: dont_know_word_def Let_def get_int_update_same get_int_update_other)

lemma know_word_effect:
  assumes "get_int w ''correct'' 0 = Inr c" "get_int w ''streak'' 0 = Inr k"
    "get_int w ''stage'' 0 = Inr g"
  shows "snd (know_word t w) = None"
    "get_int (fst (know_word t w)) ''correct'' 0 = Inr (c + 1)"
    "get_int (fst (know_word t w)) ''streak'' 0 =
        Inr (if k + 1 \<ge> STREAK_TO_GRADUATE then 0 else k + 1)"
    "get_int (fst (know_word t w)) ''stage'' 0 =
        Inr (if k + 1 \<ge> STREAK_TO_GRADUATE then min MAX_STAGE (g + 1) else g)"
    "get_int (fst (know_word t w)) ''due'' 0 =
        Inr (if k + 1 \<ge> STREAK_TO_GRADUATE \<and> min MAX_STAGE (g + 1) < MAX_STAGE
             then t + day_seconds (cooldown_days (min MAX_STAGE (g + 1))) else 0)"
    "fst (know_word t w) \<noteq> []"
  using assms
  by (simp_all add: know_word_def Let_def get_int_update_same get_int_update_other)

lemma answer_word:
  assumes "current s = Some i" "i < length (words s)" "words s ! i \<noteq> []"
  shows "words (fst (answer f s)) ! i = fst (f (words s ! i))"
  using assms
  by (auto simp: answer_def Let_def save_words_def split: prod.splits option.splits)

lemma answer_frame:
  "current (fst (answer f s)) = current s" "length (words (fst (answer f s))) = length (words s)"
  by (auto simp: answer_def Let_def save_words_def split: prod.splits option.splits)

lemma cooldown_table:
  "cooldown_days 1 = 1" "cooldown_days 2 = 2" "cooldown_days 3 = 4" "cooldown_days 4 = 7"
  "cooldown_days 5 = 14" "cooldown_days 6 = 30"
  "n < 1 \<or> 6 < n \<Longrightarrow> cooldown_days n = 2"
  by (auto simp: cooldown_days_def STAGE_COOLDOWN_DAYS_def)

text \<open>
  C1, as the code has it. Three calls of \<^verbatim>\<open>answer_know\<close> on the current word, whose streak
  is 0 and whose numeric fields are readable, leave the stage alone in the first two calls
  and set \<^verbatim>\<open>due\<close> to 0 there; the third call resets the streak to 0 and sets the stage to
  \<^verbatim>\<open>min(MAX_STAGE, stage + 1)\<close>, which is \<^verbatim>\<open>stage + 1\<close> for a stage below \<^verbatim>\<open>MAX_STAGE\<close>. On
  that call \<^verbatim>\<open>due\<close> is \<^verbatim>\<open>now\<close> plus the cooldown of the new stage in seconds when the new
  stage is below \<^verbatim>\<open>MAX_STAGE\<close>, and 0 otherwise. The cooldown table is 1, 2, 4, 7, 14 and 30
  days for the stages 1 to 6 and 2 days for any other stage.
\<close>

theorem answer_know_graduates:
  assumes cur: "current s = Some i" and len: "i < length (words s)" and ne: "words s ! i \<noteq> []"
    and c: "get_int (words s ! i) ''correct'' 0 = Inr c"
    and k: "get_int (words s ! i) ''streak'' 0 = Inr 0"
    and g: "get_int (words s ! i) ''stage'' 0 = Inr g"
  shows "let s1 = fst (answer_know t1 s); s2 = fst (answer_know t2 s1);
             s3 = fst (answer_know t3 s2); new_stage = min MAX_STAGE (g + 1)
         in get_int (words s1 ! i) ''stage'' 0 = Inr g
          \<and> get_int (words s1 ! i) ''due'' 0 = Inr 0
          \<and> get_int (words s2 ! i) ''stage'' 0 = Inr g
          \<and> get_int (words s2 ! i) ''due'' 0 = Inr 0
          \<and> get_int (words s3 ! i) ''stage'' 0 = Inr new_stage
          \<and> get_int (words s3 ! i) ''streak'' 0 = Inr 0
          \<and> get_int (words s3 ! i) ''due'' 0 =
                Inr (if new_stage < MAX_STAGE
                     then t3 + cooldown_days new_stage * 86400 else 0)
          \<and> (g < MAX_STAGE \<longrightarrow> new_stage = g + 1)
          \<and> cooldown_days 1 = 1 \<and> cooldown_days 2 = 2 \<and> cooldown_days 3 = 4
          \<and> cooldown_days 4 = 7 \<and> cooldown_days 5 = 14 \<and> cooldown_days 6 = 30
          \<and> (\<forall>n. n < 1 \<or> 6 < n \<longrightarrow> cooldown_days n = 2)"
proof -
  define s1 where "s1 = fst (answer_know t1 s)"
  define s2 where "s2 = fst (answer_know t2 s1)"
  define s3 where "s3 = fst (answer_know t3 s2)"
  have w1: "words s1 ! i = fst (know_word t1 (words s ! i))"
    unfolding s1_def answer_know_def using cur len ne by (rule answer_word)
  have f1: "current s1 = Some i" "i < length (words s1)" "words s1 ! i \<noteq> []"
    using cur len know_word_effect(6)[OF c k g]
    by (simp_all add: s1_def answer_know_def answer_frame w1[unfolded s1_def answer_know_def])
  note e1 = know_word_effect[OF c k g, of t1, folded w1]
  have c1: "get_int (words s1 ! i) ''correct'' 0 = Inr (c + 1)"
    and k1: "get_int (words s1 ! i) ''streak'' 0 = Inr 1"
    and g1: "get_int (words s1 ! i) ''stage'' 0 = Inr g"
    and d1: "get_int (words s1 ! i) ''due'' 0 = Inr 0"
    using e1 by (simp_all add: STREAK_TO_GRADUATE_def)
  have w2: "words s2 ! i = fst (know_word t2 (words s1 ! i))"
    unfolding s2_def answer_know_def using f1 by (rule answer_word)
  have f2: "current s2 = Some i" "i < length (words s2)" "words s2 ! i \<noteq> []"
    using f1 know_word_effect(6)[OF c1 k1 g1]
    by (simp_all add: s2_def answer_know_def answer_frame w2[unfolded s2_def answer_know_def])
  note e2 = know_word_effect[OF c1 k1 g1, of t2, folded w2]
  have c2: "get_int (words s2 ! i) ''correct'' 0 = Inr (c + 1 + 1)"
    and k2: "get_int (words s2 ! i) ''streak'' 0 = Inr 2"
    and g2: "get_int (words s2 ! i) ''stage'' 0 = Inr g"
    and d2: "get_int (words s2 ! i) ''due'' 0 = Inr 0"
    using e2 by (simp_all add: STREAK_TO_GRADUATE_def)
  have w3: "words s3 ! i = fst (know_word t3 (words s2 ! i))"
    unfolding s3_def answer_know_def using f2 by (rule answer_word)
  note e3 = know_word_effect[OF c2 k2 g2, of t3, folded w3]
  have k3: "get_int (words s3 ! i) ''streak'' 0 = Inr 0"
    and g3: "get_int (words s3 ! i) ''stage'' 0 = Inr (min MAX_STAGE (g + 1))"
    and d3: "get_int (words s3 ! i) ''due'' 0 =
         Inr (if min MAX_STAGE (g + 1) < MAX_STAGE
              then t3 + cooldown_days (min MAX_STAGE (g + 1)) * 86400 else 0)"
    using e3 by (simp_all add: STREAK_TO_GRADUATE_def day_seconds_def)
  have tab: "\<forall>n. n < 1 \<or> 6 < n \<longrightarrow> cooldown_days n = 2"
    using cooldown_table(7) by blast
  show ?thesis
    unfolding Let_def s1_def[symmetric] s2_def[symmetric] s3_def[symmetric]
    using g1 d1 g2 d2 g3 k3 d3 tab by (simp add: cooldown_table)
qed

theorem answer_know_graduates_witness:
  "current (engine_of [word_of ''ev'' 2 0 0 0] (Some 0)) = Some 0
   \<and> 0 < length (words (engine_of [word_of ''ev'' 2 0 0 0] (Some 0)))
   \<and> words (engine_of [word_of ''ev'' 2 0 0 0] (Some 0)) ! 0 \<noteq> []
   \<and> get_int (words (engine_of [word_of ''ev'' 2 0 0 0] (Some 0)) ! 0) ''correct'' 0 = Inr 0
   \<and> get_int (words (engine_of [word_of ''ev'' 2 0 0 0] (Some 0)) ! 0) ''streak'' 0 = Inr 0
   \<and> get_int (words (engine_of [word_of ''ev'' 2 0 0 0] (Some 0)) ! 0) ''stage'' 0 = Inr 2
   \<and> get_int (words (fst (answer_know 1000 (fst (answer_know 900 (fst (answer_know 800
         (engine_of [word_of ''ev'' 2 0 0 0] (Some 0)))))))) ! 0) ''stage'' 0 = Inr 3
   \<and> get_int (words (fst (answer_know 1000 (fst (answer_know 900 (fst (answer_know 800
         (engine_of [word_of ''ev'' 2 0 0 0] (Some 0)))))))) ! 0) ''streak'' 0 = Inr 0
   \<and> get_int (words (fst (answer_know 1000 (fst (answer_know 900 (fst (answer_know 800
         (engine_of [word_of ''ev'' 2 0 0 0] (Some 0)))))))) ! 0) ''due'' 0
        = Inr (1000 + 4 * 86400)
   \<and> cooldown_days 3 = 4 \<and> cooldown_days 7 = 2"
proof -
  have h: "current (engine_of [word_of ''ev'' 2 0 0 0] (Some 0)) = Some 0"
    "0 < length (words (engine_of [word_of ''ev'' 2 0 0 0] (Some 0)))"
    "words (engine_of [word_of ''ev'' 2 0 0 0] (Some 0)) ! 0 \<noteq> []"
    "get_int (words (engine_of [word_of ''ev'' 2 0 0 0] (Some 0)) ! 0) ''correct'' 0 = Inr 0"
    "get_int (words (engine_of [word_of ''ev'' 2 0 0 0] (Some 0)) ! 0) ''streak'' 0 = Inr 0"
    "get_int (words (engine_of [word_of ''ev'' 2 0 0 0] (Some 0)) ! 0) ''stage'' 0 = Inr 2"
    by (simp_all add: engine_of_def word_of_def get_int_def dict_get_def)
  from answer_know_graduates[OF h, of 800 900 1000] h show ?thesis
    by (simp add: Let_def MAX_STAGE_def cooldown_table)
qed

text \<open>
  The engine state of the counterexample to C1 as stated, and the way the engine gets
  there: a stored word at stage 5 with streak 2 is loaded, drawn and answered.
\<close>

lemma graduated_engine_eq:
  "graduated_engine = \<lparr>store = Stored [[(''tr'', JStr ''ev''), (''ru'', JList [JStr ''x'']),
        (''stage'', JInt 6), (''streak'', JInt 0), (''due'', JInt 0), (''again'', JInt 0),
        (''correct'', JInt 1)]], writable = True,
      words = [[(''tr'', JStr ''ev''), (''ru'', JList [JStr ''x'']),
        (''stage'', JInt 6), (''streak'', JInt 0), (''due'', JInt 0), (''again'', JInt 0),
        (''correct'', JInt 1)]], pool = [0], current = Some 0\<rparr>"
  by (simp add: graduated_engine_def pool_eval card_eval target_verbs_def MIN_VERB_SHARE_def
        eval_defs)

lemma graduated_engine_reachable: "reachable graduated_engine"
proof -
  have "normalized (word_of ''ev'' 5 2 0 0)"
    by (simp add: normalized_def word_of_def has_key_def int_field_def MAX_STAGE_def)
  then have "normalize_word (word_of ''ev'' 5 2 0 0) = Inr (word_of ''ev'' 5 2 0 0)"
    by (rule normalize_word_idem)
  then have "init (Stored [word_of ''ev'' 5 2 0 0]) Missing True
        = Inr (engine_of [word_of ''ev'' 5 2 0 0] None)"
    by (simp add: init_def load_words_def e_bind_def engine_of_def)
  then have "reachable (engine_of [word_of ''ev'' 5 2 0 0] None)"
    by (rule reachable.start)
  then show ?thesis
    unfolding graduated_engine_def by (intro reachable.know reachable.card)
qed

text \<open>
  C1 as stated fails for a current word that is already at \<^verbatim>\<open>MAX_STAGE\<close>: in the reachable
  state above the current word has streak 0 and stage 6, and three calls of
  \<^verbatim>\<open>answer_know\<close> leave its stage at 6.
\<close>

theorem answer_know_at_max_stage_counterexample:
  "reachable graduated_engine
   \<and> current graduated_engine = Some 0
   \<and> get_int (words graduated_engine ! 0) ''streak'' 0 = Inr 0
   \<and> get_int (words graduated_engine ! 0) ''stage'' 0 = Inr 6
   \<and> get_int (words (fst (answer_know 3 (fst (answer_know 2 (fst (answer_know 1
         graduated_engine)))))) ! 0) ''stage'' 0 = Inr 6"
  using graduated_engine_reachable by (simp add: graduated_engine_eq eval_defs)

text \<open>
  C2. \<^verbatim>\<open>answer_dont_know\<close> on the current word sets the streak and \<^verbatim>\<open>due\<close> to 0, lowers the
  stage by 1 only when it is above 0, and sets \<^verbatim>\<open>again\<close> to \<^verbatim>\<open>min(10, again + 2)\<close>. The word
  with stage 2 and \<^verbatim>\<open>again\<close> 0 of the scenario is the witness.
\<close>

theorem answer_dont_know_effect:
  assumes "current s = Some i" and "i < length (words s)" and "words s ! i \<noteq> []"
    and "get_int (words s ! i) ''stage'' 0 = Inr g"
    and "get_int (words s ! i) ''again'' 0 = Inr a"
  shows "get_int (words (fst (answer_dont_know s)) ! i) ''streak'' 0 = Inr 0
       \<and> get_int (words (fst (answer_dont_know s)) ! i) ''due'' 0 = Inr 0
       \<and> get_int (words (fst (answer_dont_know s)) ! i) ''stage'' 0 = Inr (if g > 0 then g - 1 else g)
       \<and> get_int (words (fst (answer_dont_know s)) ! i) ''again'' 0 = Inr (min 10 (a + 2))"
  using assms
  by (simp add: answer_dont_know_def answer_word dont_know_word_effect)

theorem answer_dont_know_effect_witness:
  "current (engine_of [word_of ''ev'' 2 1 7 0] (Some 0)) = Some 0
   \<and> 0 < length (words (engine_of [word_of ''ev'' 2 1 7 0] (Some 0)))
   \<and> words (engine_of [word_of ''ev'' 2 1 7 0] (Some 0)) ! 0 \<noteq> []
   \<and> get_int (words (engine_of [word_of ''ev'' 2 1 7 0] (Some 0)) ! 0) ''stage'' 0 = Inr 2
   \<and> get_int (words (engine_of [word_of ''ev'' 2 1 7 0] (Some 0)) ! 0) ''again'' 0 = Inr 0
   \<and> get_int (words (fst (answer_dont_know (engine_of [word_of ''ev'' 2 1 7 0] (Some 0)))) ! 0) ''streak'' 0 = Inr 0
   \<and> get_int (words (fst (answer_dont_know (engine_of [word_of ''ev'' 2 1 7 0] (Some 0)))) ! 0) ''due'' 0 = Inr 0
   \<and> get_int (words (fst (answer_dont_know (engine_of [word_of ''ev'' 2 1 7 0] (Some 0)))) ! 0) ''stage'' 0 = Inr 1
   \<and> get_int (words (fst (answer_dont_know (engine_of [word_of ''ev'' 2 1 7 0] (Some 0)))) ! 0) ''again'' 0 = Inr 2"
proof -
  have h: "current (engine_of [word_of ''ev'' 2 1 7 0] (Some 0)) = Some 0"
    "0 < length (words (engine_of [word_of ''ev'' 2 1 7 0] (Some 0)))"
    "words (engine_of [word_of ''ev'' 2 1 7 0] (Some 0)) ! 0 \<noteq> []"
    "get_int (words (engine_of [word_of ''ev'' 2 1 7 0] (Some 0)) ! 0) ''stage'' 0 = Inr 2"
    "get_int (words (engine_of [word_of ''ev'' 2 1 7 0] (Some 0)) ! 0) ''again'' 0 = Inr 0"
    by (simp_all add: engine_of_def word_of_def get_int_def dict_get_def)
  from answer_dont_know_effect[OF h] h show ?thesis by simp
qed

text \<open>
  C9. With no current word, \<^verbatim>\<open>answer_know\<close> and \<^verbatim>\<open>answer_dont_know\<close> return at once:
  the engine, its words and the stored file included, is left as it was, and nothing
  is raised.
\<close>

theorem answer_without_current:
  assumes "current s = None"
  shows "answer_know t s = (s, None) \<and> answer_dont_know s = (s, None)"
  using assms by (simp add: answer_know_def answer_dont_know_def answer_def)

theorem answer_without_current_witness:
  "current (engine_of [word_of ''ev'' 2 1 7 0] None) = None
   \<and> answer_know 5 (engine_of [word_of ''ev'' 2 1 7 0] None)
        = (engine_of [word_of ''ev'' 2 1 7 0] None, None)
   \<and> answer_dont_know (engine_of [word_of ''ev'' 2 1 7 0] None)
        = (engine_of [word_of ''ev'' 2 1 7 0] None, None)"
proof -
  have h: "current (engine_of [word_of ''ev'' 2 1 7 0] None) = None"
    by (simp add: engine_of_def)
  from answer_without_current[OF h, of 5] h show ?thesis by simp
qed

section \<open>The pool\<close>

lemma insort_key_zip:
  "insort_key snd (x, f x) (map (\<lambda>y. (y, f y)) xs) = map (\<lambda>y. (y, f y)) (insort_key f x xs)"
  by (induction xs) simp_all

lemma sort_key_zip:
  "sort_key snd (zip xs (map f xs)) = map (\<lambda>y. (y, f y)) (sort_key f xs)"
  by (induction xs) (simp_all add: insort_key_zip)

lemma sort_key_decorated: "map fst (sort_key snd (zip xs (map f xs))) = sort_key f xs"
  by (simp add: sort_key_zip comp_def)

lemma eligible_stage:
  assumes "eligible clk ws i"
  shows "\<exists>g. get_int (ws ! i) ''stage'' 0 = Inr g \<and> g < MAX_STAGE"
  using assms
  by (auto simp: eligible_def is_available_now_def e_bind_Inr split: if_splits)

lemma target_verbs_14: "target_verbs = 14"
  by (simp add: target_verbs_def POOL_SIZE_def MIN_VERB_SHARE_def)

lemma py_eq_JStr_right: "py_eq v (JStr s) \<Longrightarrow> v = JStr s"
  by (cases v) simp_all

lemma py_eq_dict_verb:
  assumes "py_eq (JObj a) (JObj b)"
  shows "verb_word lib a = verb_word lib b"
proof (cases "map_of a ''tr''")
  case None
  then have "''tr'' \<notin> set (map fst a)" by (simp add: map_of_eq_None_iff)
  with assms have "''tr'' \<notin> set (map fst b)" by simp
  then have "map_of b ''tr'' = None" by (simp add: map_of_eq_None_iff)
  with None show ?thesis by (simp add: verb_word_def dict_get_def)
next
  case (Some v)
  then have "(''tr'', v) \<in> set a" by (rule map_of_SomeD)
  with assms Some obtain v' where v': "map_of b ''tr'' = Some v'" "py_eq v v'"
    by (auto split: option.splits)
  show ?thesis
  proof (cases "\<exists>t. v' = JStr t")
    case True
    then obtain t where "v' = JStr t" by blast
    with v' have "v = JStr t" by (simp add: py_eq_JStr_right)
    with Some v' \<open>v' = JStr t\<close> show ?thesis by (simp add: verb_word_def dict_get_def)
  next
    case False
    with v' have "\<not> (\<exists>t. v = JStr t)" by (cases v) auto
    with False Some v' show ?thesis
      by (cases v; cases v') (simp_all add: verb_word_def dict_get_def)
  qed
qed

lemma py_in_verbs:
  assumes "i \<in> set xs"
  shows "py_in ws i (filter (\<lambda>j. verb_word lib (ws ! j)) xs) \<longleftrightarrow> verb_word lib (ws ! i)"
  using assms py_eq_dict_verb[of "ws ! _" "ws ! i"]
  by (auto simp: py_in_def list_ex_iff)

lemma filter_not_py_in_verbs:
  "filter (\<lambda>i. \<not> py_in ws i (filter (\<lambda>j. verb_word lib (ws ! j)) xs)) xs
     = filter (\<lambda>i. \<not> verb_word lib (ws ! i)) xs"
  by (rule filter_cong) (simp_all add: py_in_verbs)

lemma refresh_pool_returns:
  assumes "\<forall>i < length (words s). \<exists>b. is_available_now (clk i) (words s ! i) = Inr b"
  shows "refresh_pool lib score clk s = Inr (s\<lparr>pool := pool_built lib score clk (words s)\<rparr>)"
proof -
  define ws where "ws = words s"
  define avail where "avail = filter (eligible clk ws) [0..<length ws]"
  have keys: "e_map (\<lambda>i. e_bind (get_int (ws ! i) ''stage'' 0) (\<lambda>g. Inr (g, score (ws ! i)))) avail
        = Inr (map (pool_key score ws) avail)"
  proof (rule e_map_total, rule ballI)
    fix i assume "i \<in> set avail"
    then have "eligible clk ws i" by (simp add: avail_def)
    then obtain g where "get_int (ws ! i) ''stage'' 0 = Inr g" using eligible_stage by blast
    then show "e_bind (get_int (ws ! i) ''stage'' 0) (\<lambda>g. Inr (g, score (ws ! i)))
        = Inr (pool_key score ws i)"
      by (simp add: e_bind_def pool_key_def stage_or_zero_def)
  qed
  have "\<forall>i \<in> set [0..<length ws]. \<exists>b. is_available_now (clk i) (ws ! i) = Inr b"
    using assms by (simp add: ws_def)
  then have filt: "e_filter (\<lambda>i. is_available_now (clk i) (ws ! i)) [0..<length ws] = Inr avail"
    unfolding e_filter_Inr avail_def eligible_def[abs_def] by blast
  have lay: "pool_built lib score clk ws =
      (let available = sort_key (pool_key score ws) avail;
           verbs = filter (\<lambda>i. verb_word lib (ws ! i)) available;
           others = filter (\<lambda>i. \<not> py_in ws i verbs) available;
           pool1 = take target_verbs verbs;
           need = POOL_SIZE - length pool1;
           pool2 = pool1 @ take need others
       in if length pool2 < POOL_SIZE
          then pool2 @ take (POOL_SIZE - length pool2)
                         (filter (\<lambda>i. \<not> py_in ws i pool2) available)
          else pool2)"
    unfolding pool_built_def pool_rest_by_value_def pool_others_def pool_verbs_def available_sorted_def
      Let_def avail_def[symmetric] target_verbs_14 filter_not_py_in_verbs
    by simp
  show ?thesis
    unfolding refresh_pool_def ws_def[symmetric] Let_def filt
    apply (simp only: e_bind_simps keys sort_key_decorated)
    apply (simp only: lay Let_def)
    done
qed

lemma refresh_pool_raises:
  assumes "\<not> (\<forall>i < length (words s). \<exists>b. is_available_now (clk i) (words s ! i) = Inr b)"
  shows "\<exists>e. refresh_pool lib score clk s = Inl e"
proof -
  have "\<not> (\<exists>ys. e_filter (\<lambda>i. is_available_now (clk i) (words s ! i)) [0..<length (words s)] = Inr ys)"
    using assms unfolding e_filter_Inr by auto
  then obtain e where "e_filter (\<lambda>i. is_available_now (clk i) (words s ! i)) [0..<length (words s)] = Inl e"
    by (cases "e_filter (\<lambda>i. is_available_now (clk i) (words s ! i)) [0..<length (words s)]") auto
  then show ?thesis by (simp add: refresh_pool_def Let_def e_bind_def)
qed

lemma refresh_pool_Inr:
  "refresh_pool lib score clk s = Inr s' \<longleftrightarrow>
     (\<forall>i < length (words s). \<exists>b. is_available_now (clk i) (words s ! i) = Inr b)
     \<and> s' = s\<lparr>pool := pool_built lib score clk (words s)\<rparr>"
  using refresh_pool_returns[of s clk lib score] refresh_pool_raises[of s clk lib score]
  by (cases "\<forall>i < length (words s). \<exists>b. is_available_now (clk i) (words s ! i) = Inr b") auto

lemma set_available_sorted:
  "set (available_sorted score clk ws) = {i. i < length ws \<and> eligible clk ws i}"
  by (auto simp: available_sorted_def)

lemma sorted_available_sorted:
  "sorted (map (pool_key score ws) (available_sorted score clk ws))"
  by (simp add: available_sorted_def)

lemma sorted_map_take: "sorted (map f xs) \<Longrightarrow> sorted (map f (take n xs))"
  by (metis take_map sorted_wrt_take)

lemma sorted_segment:
  "sorted (map (pool_key score ws) (take n (filter P (available_sorted score clk ws))))"
  by (intro sorted_map_take sorted_filter sorted_available_sorted)

lemma set_segment:
  "set (take n (filter P (available_sorted score clk ws)))
     \<subseteq> {i. i < length ws \<and> eligible clk ws i \<and> P i}"
  using set_take_subset[of n "filter P (available_sorted score clk ws)"]
  by (auto simp: set_available_sorted)

lemma length_pool_built: "length (pool_built lib score clk ws) \<le> POOL_SIZE"
proof -
  have v: "length (pool_verbs lib score clk ws) \<le> 14"
    by (simp add: pool_verbs_def)
  have o: "length (pool_others lib score clk ws) \<le> POOL_SIZE - length (pool_verbs lib score clk ws)"
    by (simp add: pool_others_def)
  have r: "length (pool_rest_by_value lib score clk ws)
      \<le> POOL_SIZE - length (pool_verbs lib score clk ws @ pool_others lib score clk ws)"
    by (simp add: pool_rest_by_value_def Let_def)
  from v o r show ?thesis
    by (simp add: pool_built_def POOL_SIZE_def)
qed

lemma pool_verbs_length:
  "length (pool_verbs lib score clk ws) =
     min 14 (length (filter (\<lambda>i. eligible clk ws i \<and> verb_word lib (ws ! i)) [0..<length ws]))"
proof -
  have "length (filter (\<lambda>i. verb_word lib (ws ! i)) (available_sorted score clk ws))
      = length (filter (\<lambda>i. eligible clk ws i \<and> verb_word lib (ws ! i)) [0..<length ws])"
    by (simp add: available_sorted_def filter_sort conj_commute)
  then show ?thesis by (simp add: pool_verbs_def min.commute)
qed

lemma pool_built_subset:
  "set (pool_built lib score clk ws) \<subseteq> {i. i < length ws \<and> eligible clk ws i}"
  using set_segment[of 14 "\<lambda>i. verb_word lib (ws ! i)" score clk ws]
    set_segment[of "POOL_SIZE - length (pool_verbs lib score clk ws)" "\<lambda>i. \<not> verb_word lib (ws ! i)" score clk ws]
    set_segment[of "POOL_SIZE - length (pool_verbs lib score clk ws @ pool_others lib score clk ws)"
       "\<lambda>i. \<not> py_in ws i (pool_verbs lib score clk ws @ pool_others lib score clk ws)" score clk ws]
  by (auto simp: pool_built_def pool_rest_by_value_def pool_others_def pool_verbs_def Let_def)

lemma py_in_mono: "py_in ws i xs \<Longrightarrow> py_in ws i (xs @ ys)"
  by (auto simp: py_in_def list_ex_iff)

lemma py_in_member: "i \<in> set xs \<Longrightarrow> py_in ws i xs"
  by (auto simp: py_in_def list_ex_iff)

text \<open>
  A pool that stays below \<open>POOL_SIZE\<close> has taken in every eligible word, up to equality
  of words.
\<close>

lemma pool_built_complete:
  assumes short: "length (pool_built lib score clk ws) < POOL_SIZE"
    and i: "i < length ws" "eligible clk ws i"
  shows "py_in ws i (pool_built lib score clk ws)"
proof -
  define inc where "inc = pool_verbs lib score clk ws @ pool_others lib score clk ws"
  define F where "F = filter (\<lambda>i. \<not> py_in ws i inc) (available_sorted score clk ws)"
  from short have s1: "length inc < POOL_SIZE"
    by (simp add: pool_built_def inc_def)
  then have R: "pool_rest_by_value lib score clk ws = take (POOL_SIZE - length inc) F"
    by (simp add: pool_rest_by_value_def Let_def inc_def[symmetric] F_def)
  have li: "length inc = length (pool_verbs lib score clk ws) + length (pool_others lib score clk ws)"
    by (simp add: inc_def)
  from short have "length inc + length (take (POOL_SIZE - length inc) F) < POOL_SIZE"
    by (simp add: pool_built_def R li)
  then have "length F \<le> POOL_SIZE - length inc" by simp
  then have RF: "pool_rest_by_value lib score clk ws = F" by (simp add: R)
  have lay: "pool_built lib score clk ws = inc @ F"
    by (simp add: pool_built_def inc_def RF)
  from i have mem: "i \<in> set (available_sorted score clk ws)"
    by (simp add: set_available_sorted)
  show ?thesis
  proof (cases "py_in ws i inc")
    case True
    then show ?thesis unfolding lay by (rule py_in_mono)
  next
    case False
    with mem have "i \<in> set F" by (simp add: F_def)
    then have "i \<in> set (inc @ F)" by simp
    then show ?thesis unfolding lay by (rule py_in_member)
  qed
qed

lemma normalized_available:
  assumes "normalized w"
  shows "\<exists>b. is_available_now t w = Inr b"
proof -
  from assms obtain g d where "map_of w ''stage'' = Some (JInt g)" "map_of w ''due'' = Some (JInt d)"
    by (auto elim: normalizedD)
  then show ?thesis
    by (auto simp: is_available_now_def get_int_def dict_get_def e_bind_def)
qed

text \<open>
  When no two eligible words are equal, a word equals no entry of the pool unless it is
  an entry, and the source fills the third segment as the specification describes it.
\<close>

lemma distinct_eligibleD:
  assumes d: "distinct_eligible clk ws"
    and i: "i < length ws" and j: "j < length ws"
    and e: "eligible clk ws i" "eligible clk ws j"
    and q: "py_eq (JObj (ws ! j)) (JObj (ws ! i))"
  shows "j = i"
proof -
  from d have "\<forall>i \<in> set [0..<length ws]. \<forall>j \<in> set [0..<length ws].
      j = i \<or> \<not> eligible clk ws i \<or> \<not> eligible clk ws j
      \<or> \<not> py_eq (JObj (ws ! j)) (JObj (ws ! i))"
    unfolding distinct_eligible_def list_all_iff .
  moreover from i j have "i \<in> set [0..<length ws]" "j \<in> set [0..<length ws]" by simp_all
  ultimately have "j = i \<or> \<not> eligible clk ws i \<or> \<not> eligible clk ws j
      \<or> \<not> py_eq (JObj (ws ! j)) (JObj (ws ! i))"
    by blast
  with e q show ?thesis by blast
qed

lemma py_in_distinct:
  assumes d: "distinct_eligible clk ws"
    and i: "i < length ws" "eligible clk ws i"
    and js: "set js \<subseteq> {j. j < length ws \<and> eligible clk ws j}"
  shows "py_in ws i js \<longleftrightarrow> i \<in> set js"
proof
  assume "py_in ws i js"
  then obtain j where j: "j \<in> set js" "j = i \<or> py_eq (JObj (ws ! j)) (JObj (ws ! i))"
    by (auto simp: py_in_def list_ex_iff)
  from j(1) js have "j < length ws" "eligible clk ws j" by auto
  with j(2) d i have "j = i" by (auto dest: distinct_eligibleD)
  with j(1) show "i \<in> set js" by simp
next
  assume "i \<in> set js"
  then show "py_in ws i js" by (rule py_in_member)
qed

lemma pool_rest_by_value_distinct:
  assumes d: "distinct_eligible clk ws"
  shows "pool_rest_by_value lib score clk ws = pool_rest lib score clk ws"
proof -
  define inc where "inc = pool_verbs lib score clk ws @ pool_others lib score clk ws"
  have sub: "set inc \<subseteq> {j. j < length ws \<and> eligible clk ws j}"
    using set_segment[of 14 "\<lambda>i. verb_word lib (ws ! i)" score clk ws]
      set_segment[of "POOL_SIZE - length (pool_verbs lib score clk ws)"
        "\<lambda>i. \<not> verb_word lib (ws ! i)" score clk ws]
    by (auto simp: inc_def pool_others_def pool_verbs_def)
  have "filter (\<lambda>i. \<not> py_in ws i inc) (available_sorted score clk ws)
      = filter (\<lambda>i. i \<notin> set inc) (available_sorted score clk ws)"
  proof (rule filter_cong[OF refl])
    fix i assume "i \<in> set (available_sorted score clk ws)"
    then have "i < length ws" "eligible clk ws i" by (simp_all add: set_available_sorted)
    then show "(\<not> py_in ws i inc) = (i \<notin> set inc)"
      using py_in_distinct[OF d _ _ sub] by simp
  qed
  then show ?thesis
    by (simp add: pool_rest_by_value_def pool_rest_def Let_def inc_def[symmetric])
qed

lemma pool_built_complete_distinct:
  assumes d: "distinct_eligible clk ws"
    and short: "length (pool_built lib score clk ws) < POOL_SIZE"
    and i: "i < length ws" "eligible clk ws i"
  shows "i \<in> set (pool_built lib score clk ws)"
  using pool_built_complete[OF short i] py_in_distinct[OF d i pool_built_subset] by simp

text \<open>
  C5. For a collection of normalized words \<^verbatim>\<open>refresh_pool\<close> returns, whatever the string
  methods and the score are. The pool it builds has at most \<open>POOL_SIZE = 40\<close> entries; the
  first segment holds up to \<open>round(40 * 0.35) = 14\<close> eligible infinitive verbs, and exactly
  14 when at least 14 eligible infinitive verbs exist, so that the pool then holds at least
  14 verbs; the second segment holds eligible words that are not verbs; each segment is in
  ascending order of \<open>(stage, score)\<close>. The third segment holds eligible words none of
  which is in the first two segments or equals a word there, and a pool that stays below
  40 entries holds every eligible word or a word equal to it. When no two eligible words
  are equal, the third segment is the one the specification describes, the remaining
  eligible words not yet included, and a pool below 40 entries holds every eligible word.
\<close>

theorem refresh_pool_layout:
  assumes norm: "\<forall>w \<in> set (words s). normalized w"
  shows "refresh_pool lib score clk s
           = Inr (s\<lparr>pool := pool_verbs lib score clk (words s) @ pool_others lib score clk (words s)
                               @ pool_rest_by_value lib score clk (words s)\<rparr>)
       \<and> length (pool_verbs lib score clk (words s) @ pool_others lib score clk (words s)
                  @ pool_rest_by_value lib score clk (words s)) \<le> POOL_SIZE
       \<and> POOL_SIZE = 40 \<and> target_verbs = 14
       \<and> length (pool_verbs lib score clk (words s)) \<le> 14
       \<and> (14 \<le> length (filter (\<lambda>i. eligible clk (words s) i \<and> verb_word lib (words s ! i))
                            [0..<length (words s)])
            \<longrightarrow> length (pool_verbs lib score clk (words s)) = 14)
       \<and> (14 \<le> length (filter (\<lambda>i. eligible clk (words s) i \<and> verb_word lib (words s ! i))
                            [0..<length (words s)])
            \<longrightarrow> 14 \<le> length (filter (\<lambda>i. verb_word lib (words s ! i))
                             (pool_verbs lib score clk (words s) @ pool_others lib score clk (words s)
                                @ pool_rest_by_value lib score clk (words s))))
       \<and> (\<forall>i \<in> set (pool_verbs lib score clk (words s)).
             i < length (words s) \<and> eligible clk (words s) i \<and> verb_word lib (words s ! i))
       \<and> (\<forall>i \<in> set (pool_others lib score clk (words s)).
             i < length (words s) \<and> eligible clk (words s) i \<and> \<not> verb_word lib (words s ! i))
       \<and> (\<forall>i \<in> set (pool_rest_by_value lib score clk (words s)).
             i < length (words s) \<and> eligible clk (words s) i
             \<and> \<not> py_in (words s) i
                   (pool_verbs lib score clk (words s) @ pool_others lib score clk (words s)))
       \<and> sorted (map (pool_key score (words s)) (pool_verbs lib score clk (words s)))
       \<and> sorted (map (pool_key score (words s)) (pool_others lib score clk (words s)))
       \<and> sorted (map (pool_key score (words s)) (pool_rest_by_value lib score clk (words s)))
       \<and> (length (pool_verbs lib score clk (words s) @ pool_others lib score clk (words s)
                   @ pool_rest_by_value lib score clk (words s)) < POOL_SIZE
            \<longrightarrow> (\<forall>i < length (words s). eligible clk (words s) i \<longrightarrow>
                   py_in (words s) i
                     (pool_verbs lib score clk (words s) @ pool_others lib score clk (words s)
                        @ pool_rest_by_value lib score clk (words s))))
       \<and> (distinct_eligible clk (words s)
            \<longrightarrow> pool_rest_by_value lib score clk (words s) = pool_rest lib score clk (words s)
                \<and> refresh_pool lib score clk s
                     = Inr (s\<lparr>pool := pool_layout lib score clk (words s)\<rparr>)
                \<and> (length (pool_layout lib score clk (words s)) < POOL_SIZE
                     \<longrightarrow> (\<forall>i < length (words s). eligible clk (words s) i \<longrightarrow>
                            i \<in> set (pool_layout lib score clk (words s)))))"
proof -
  define ws where "ws = words s"
  have av: "\<forall>i < length (words s). \<exists>b. is_available_now (clk i) (words s ! i) = Inr b"
    using norm normalized_available by simp
  have 1: "refresh_pool lib score clk s
           = Inr (s\<lparr>pool := pool_verbs lib score clk ws @ pool_others lib score clk ws
                               @ pool_rest_by_value lib score clk ws\<rparr>)"
    using refresh_pool_returns[OF av, of lib score] by (simp add: pool_built_def ws_def)
  have 2: "length (pool_verbs lib score clk ws @ pool_others lib score clk ws
                     @ pool_rest_by_value lib score clk ws) \<le> POOL_SIZE"
    using length_pool_built[of lib score clk ws] by (simp add: pool_built_def)
  have 3: "length (pool_verbs lib score clk ws) \<le> 14" by (simp add: pool_verbs_def)
  have 4: "14 \<le> length (filter (\<lambda>i. eligible clk ws i \<and> verb_word lib (ws ! i)) [0..<length ws])
            \<longrightarrow> length (pool_verbs lib score clk ws) = 14"
    by (simp add: pool_verbs_length)
  have 5: "\<forall>i \<in> set (pool_verbs lib score clk ws).
             i < length ws \<and> eligible clk ws i \<and> verb_word lib (ws ! i)"
    using set_segment[of 14 "\<lambda>i. verb_word lib (ws ! i)" score clk ws]
    by (auto simp: pool_verbs_def)
  have all_verbs: "filter (\<lambda>i. verb_word lib (ws ! i)) (pool_verbs lib score clk ws)
      = pool_verbs lib score clk ws"
    using 5 by (simp add: filter_id_conv)
  have vcount: "14 \<le> length (filter (\<lambda>i. eligible clk ws i \<and> verb_word lib (ws ! i)) [0..<length ws])
            \<longrightarrow> 14 \<le> length (filter (\<lambda>i. verb_word lib (ws ! i))
                             (pool_verbs lib score clk ws @ pool_others lib score clk ws
                                @ pool_rest_by_value lib score clk ws))"
    using 4 by (simp add: all_verbs)
  have 6: "\<forall>i \<in> set (pool_others lib score clk ws).
             i < length ws \<and> eligible clk ws i \<and> \<not> verb_word lib (ws ! i)"
    using set_segment[of "POOL_SIZE - length (pool_verbs lib score clk ws)"
        "\<lambda>i. \<not> verb_word lib (ws ! i)" score clk ws]
    by (auto simp: pool_others_def)
  have 7: "\<forall>i \<in> set (pool_rest_by_value lib score clk ws).
             i < length ws \<and> eligible clk ws i
             \<and> \<not> py_in ws i (pool_verbs lib score clk ws @ pool_others lib score clk ws)"
  proof
    fix i assume i: "i \<in> set (pool_rest_by_value lib score clk ws)"
    then have "i \<in> set (take (POOL_SIZE - length (pool_verbs lib score clk ws @ pool_others lib score clk ws))
                (filter (\<lambda>i. \<not> py_in ws i (pool_verbs lib score clk ws @ pool_others lib score clk ws))
                   (available_sorted score clk ws)))"
      by (simp add: pool_rest_by_value_def Let_def split: if_splits)
    with set_segment[of "POOL_SIZE - length (pool_verbs lib score clk ws @ pool_others lib score clk ws)"
        "\<lambda>i. \<not> py_in ws i (pool_verbs lib score clk ws @ pool_others lib score clk ws)" score clk ws]
    show "i < length ws \<and> eligible clk ws i
        \<and> \<not> py_in ws i (pool_verbs lib score clk ws @ pool_others lib score clk ws)"
      by blast
  qed
  have 8: "sorted (map (pool_key score ws) (pool_verbs lib score clk ws))"
    "sorted (map (pool_key score ws) (pool_others lib score clk ws))"
    unfolding pool_verbs_def pool_others_def by (rule sorted_segment)+
  have 9: "sorted (map (pool_key score ws) (pool_rest_by_value lib score clk ws))"
    unfolding pool_rest_by_value_def Let_def by (simp add: sorted_segment)
  have 10: "length (pool_verbs lib score clk ws @ pool_others lib score clk ws
                      @ pool_rest_by_value lib score clk ws) < POOL_SIZE
            \<longrightarrow> (\<forall>i < length ws. eligible clk ws i \<longrightarrow>
                   py_in ws i (pool_verbs lib score clk ws @ pool_others lib score clk ws
                                 @ pool_rest_by_value lib score clk ws))"
    using pool_built_complete[of lib score clk ws] by (simp add: pool_built_def)
  have 11: "distinct_eligible clk ws
            \<longrightarrow> pool_rest_by_value lib score clk ws = pool_rest lib score clk ws
                \<and> refresh_pool lib score clk s = Inr (s\<lparr>pool := pool_layout lib score clk ws\<rparr>)
                \<and> (length (pool_layout lib score clk ws) < POOL_SIZE
                     \<longrightarrow> (\<forall>i < length ws. eligible clk ws i \<longrightarrow>
                            i \<in> set (pool_layout lib score clk ws)))"
  proof
    assume d: "distinct_eligible clk ws"
    then have r: "pool_rest_by_value lib score clk ws = pool_rest lib score clk ws"
      by (rule pool_rest_by_value_distinct)
    then have b: "pool_built lib score clk ws = pool_layout lib score clk ws"
      by (simp add: pool_built_def pool_layout_def)
    have p: "refresh_pool lib score clk s = Inr (s\<lparr>pool := pool_layout lib score clk ws\<rparr>)"
      using 1 r by (simp add: pool_layout_def)
    have c: "length (pool_layout lib score clk ws) < POOL_SIZE
               \<longrightarrow> (\<forall>i < length ws. eligible clk ws i \<longrightarrow> i \<in> set (pool_layout lib score clk ws))"
      using pool_built_complete_distinct[OF d, of lib score] unfolding b by blast
    from r p c show "pool_rest_by_value lib score clk ws = pool_rest lib score clk ws
                \<and> refresh_pool lib score clk s = Inr (s\<lparr>pool := pool_layout lib score clk ws\<rparr>)
                \<and> (length (pool_layout lib score clk ws) < POOL_SIZE
                     \<longrightarrow> (\<forall>i < length ws. eligible clk ws i \<longrightarrow>
                            i \<in> set (pool_layout lib score clk ws)))"
      by (intro conjI)
  qed
  from 1 2 3 4 vcount 5 6 7 8 9 10 11 show ?thesis
    unfolding ws_def by (simp only: POOL_SIZE_def target_verbs_14 simp_thms)
qed

theorem refresh_pool_layout_witness:
  "list_all normalized (words verb_engine)
   \<and> 14 \<le> length (filter (\<lambda>i. eligible (\<lambda>i. 100) (words verb_engine) i
                                \<and> verb_word ascii_methods (words verb_engine ! i))
                      [0..<length (words verb_engine)])
   \<and> distinct_eligible (\<lambda>i. 100) (words verb_engine)
   \<and> refresh_pool ascii_methods ascii_score (\<lambda>i. 100) verb_engine
        = Inr (verb_engine\<lparr>pool := [0, 1, 2, 3, 4, 5, 6, 7, 8, 9, 10, 11, 12, 13, 15, 14]\<rparr>)
   \<and> pool_layout ascii_methods ascii_score (\<lambda>i. 100) (words verb_engine)
        = [0, 1, 2, 3, 4, 5, 6, 7, 8, 9, 10, 11, 12, 13, 15, 14]
   \<and> length (pool_verbs ascii_methods ascii_score (\<lambda>i. 100) (words verb_engine)) = 14
   \<and> length (pool_verbs ascii_methods ascii_score (\<lambda>i. 100) (words verb_engine)
               @ pool_others ascii_methods ascii_score (\<lambda>i. 100) (words verb_engine)
               @ pool_rest_by_value ascii_methods ascii_score (\<lambda>i. 100) (words verb_engine)) \<le> 40"
proof -
  have n: "list_all normalized (words verb_engine)"
    by code_simp
  have v: "14 \<le> length (filter (\<lambda>i. eligible (\<lambda>i. 100) (words verb_engine) i
                                \<and> verb_word ascii_methods (words verb_engine ! i))
                      [0..<length (words verb_engine)])"
    by code_simp
  have d: "distinct_eligible (\<lambda>i. 100) (words verb_engine)"
    by code_simp
  have p: "refresh_pool ascii_methods ascii_score (\<lambda>i. 100) verb_engine
        = Inr (verb_engine\<lparr>pool := [0, 1, 2, 3, 4, 5, 6, 7, 8, 9, 10, 11, 12, 13, 15, 14]\<rparr>)"
    by code_simp
  from n have h: "\<forall>w \<in> set (words verb_engine). normalized w"
    by (simp only: list_all_iff)
  note t = refresh_pool_layout[OF h, of ascii_methods ascii_score "\<lambda>i. 100"]
  from t v
  have l: "length (pool_verbs ascii_methods ascii_score (\<lambda>i. 100) (words verb_engine)) = 14"
    and m: "length (pool_verbs ascii_methods ascii_score (\<lambda>i. 100) (words verb_engine)
               @ pool_others ascii_methods ascii_score (\<lambda>i. 100) (words verb_engine)
               @ pool_rest_by_value ascii_methods ascii_score (\<lambda>i. 100) (words verb_engine)) \<le> 40"
    by (simp_all only: POOL_SIZE_def)
  from t d have "refresh_pool ascii_methods ascii_score (\<lambda>i. 100) verb_engine
        = Inr (verb_engine\<lparr>pool := pool_layout ascii_methods ascii_score (\<lambda>i. 100)
                                      (words verb_engine)\<rparr>)"
    by blast
  with p have "verb_engine\<lparr>pool := pool_layout ascii_methods ascii_score (\<lambda>i. 100)
                                      (words verb_engine)\<rparr>
      = verb_engine\<lparr>pool := [0, 1, 2, 3, 4, 5, 6, 7, 8, 9, 10, 11, 12, 13, 15, 14]\<rparr>"
    by simp
  then have "pool (verb_engine\<lparr>pool := pool_layout ascii_methods ascii_score (\<lambda>i. 100)
                                      (words verb_engine)\<rparr>)
      = pool (verb_engine\<lparr>pool := [0, 1, 2, 3, 4, 5, 6, 7, 8, 9, 10, 11, 12, 13, 15, 14]\<rparr>)"
    by (rule arg_cong)
  then have q: "pool_layout ascii_methods ascii_score (\<lambda>i. 100) (words verb_engine)
        = [0, 1, 2, 3, 4, 5, 6, 7, 8, 9, 10, 11, 12, 13, 15, 14]"
    by simp
  from n v d p q l m show ?thesis by (intro conjI)
qed

text \<open>
  The claim as stated, with any remaining eligible word in the third segment, fails for
  a collection that holds equal words. Of fifteen equal infinitive verbs the first
  fourteen fill the first segment and the other word the second; the fifteenth verb is
  eligible and not in the pool, but equals a word of the pool, so the source leaves it
  out of a pool of fifteen entries, where the pool described has sixteen.
\<close>

theorem refresh_pool_equal_words_counterexample:
  "list_all normalized (words same_verbs_engine)
   \<and> length (words same_verbs_engine) = 16
   \<and> eligible (\<lambda>i. 100) (words same_verbs_engine) 14
   \<and> refresh_pool ascii_methods ascii_score (\<lambda>i. 100) same_verbs_engine
        = Inr (same_verbs_engine\<lparr>pool := [0, 1, 2, 3, 4, 5, 6, 7, 8, 9, 10, 11, 12, 13, 15]\<rparr>)
   \<and> length [0, 1, 2, 3, 4, 5, 6, 7, 8, 9, 10, 11, 12, 13, 15 :: nat] < POOL_SIZE
   \<and> 14 \<notin> set [0, 1, 2, 3, 4, 5, 6, 7, 8, 9, 10, 11, 12, 13, 15 :: nat]
   \<and> pool_layout ascii_methods ascii_score (\<lambda>i. 100) (words same_verbs_engine)
        = [0, 1, 2, 3, 4, 5, 6, 7, 8, 9, 10, 11, 12, 13, 15, 14]"
proof -
  have n: "list_all normalized (words same_verbs_engine)"
    by code_simp
  have l: "length (words same_verbs_engine) = 16"
    by (simp add: same_verbs_engine_def engine_of_def)
  have e: "eligible (\<lambda>i. 100) (words same_verbs_engine) 14"
    by code_simp
  have p: "refresh_pool ascii_methods ascii_score (\<lambda>i. 100) same_verbs_engine
        = Inr (same_verbs_engine\<lparr>pool := [0, 1, 2, 3, 4, 5, 6, 7, 8, 9, 10, 11, 12, 13, 15]\<rparr>)"
    by code_simp
  have s: "length [0, 1, 2, 3, 4, 5, 6, 7, 8, 9, 10, 11, 12, 13, 15 :: nat] < POOL_SIZE"
    by (simp add: POOL_SIZE_def)
  have m: "14 \<notin> set [0, 1, 2, 3, 4, 5, 6, 7, 8, 9, 10, 11, 12, 13, 15 :: nat]"
    by simp
  have q: "pool_layout ascii_methods ascii_score (\<lambda>i. 100) (words same_verbs_engine)
        = [0, 1, 2, 3, 4, 5, 6, 7, 8, 9, 10, 11, 12, 13, 15, 14]"
    by code_simp
  from n l e p s m q show ?thesis by (intro conjI)
qed

section \<open>\<^verbatim>\<open>next_card\<close>\<close>

lemma pick_from_pool_Some:
  assumes "pick_from_pool r s = Inr (Some i)"
  shows "i \<in> set (pool s)"
proof -
  from assms have ne: "pool s \<noteq> []" and i: "i = pool s ! (r mod length (pool s))"
    by (auto simp: pick_from_pool_def e_bind_Inr split: if_splits)
  from ne have "r mod length (pool s) < length (pool s)" by simp
  with i show ?thesis by (simp only: nth_mem)
qed

lemma save_words_frame:
  "words (fst (save_words s)) = words s" "current (fst (save_words s)) = current s"
  "pool (fst (save_words s)) = pool s"
  by (simp_all add: save_words_def split: prod.splits)

lemma next_card_raises_early:
  assumes "refresh_pool lib score clk s = Inl e"
  shows "next_card lib score clk r side s = (s, Inl e)"
  using assms by (simp add: next_card_def)

lemma next_card_after_refresh:
  assumes "refresh_pool lib score clk s = Inr s1"
  shows "pool (fst (next_card lib score clk r side s)) = pool s1
    \<and> (words (fst (next_card lib score clk r side s)) = words s1
         \<and> (\<forall>c. snd (next_card lib score clk r side s) = Inr (Some c) \<longrightarrow>
               (\<exists>i \<in> set (pool s1). current (fst (next_card lib score clk r side s)) = Some i))
       \<or> (\<exists>i a. i \<in> set (pool s1) \<and> get_int (words s1 ! i) ''again'' 0 = Inr a \<and> 0 < a
             \<and> current (fst (next_card lib score clk r side s)) = Some i
             \<and> words (fst (next_card lib score clk r side s))
                  = (words s1)[i := AList.update ''again'' (JInt (a - 1)) (words s1 ! i)]))"
proof (cases "pool s1 = []")
  case True
  with assms show ?thesis by (simp add: next_card_def)
next
  case ne: False
  show ?thesis
  proof (cases "pick_from_pool r s1")
    case (Inl e)
    with assms ne show ?thesis by (simp add: next_card_def)
  next
    case (Inr p)
    show ?thesis
    proof (cases p)
      case None
      with Inr assms ne show ?thesis by (simp add: next_card_def)
    next
      case (Some i)
      with Inr have mem: "i \<in> set (pool s1)" by (simp add: pick_from_pool_Some)
      show ?thesis
      proof (cases "get_int (words s1 ! i) ''again'' 0")
        case (Inl e)
        with Some Inr assms ne show ?thesis by (simp add: next_card_def)
      next
        case a: (Inr a)
        show ?thesis
        proof (cases "0 < a")
          case False
          with a Some Inr assms ne mem show ?thesis
            by (auto simp: next_card_def Let_def e_bind_Inr)
        next
          case True
          then have "max 0 (a - 1) = a - 1" by simp
          with True a Some Inr assms ne mem show ?thesis
            by (auto simp: next_card_def Let_def save_words_def split: option.splits prod.splits)
        qed
      qed
    qed
  qed
qed

lemma max_stage_not_available:
  assumes "get_int w ''stage'' 0 = Inr MAX_STAGE"
  shows "is_available_now t w \<noteq> Inr True"
    and "get_int w ''due'' 0 = Inr d \<Longrightarrow> is_available_now t w = Inr False"
  using assms by (auto simp: is_available_now_def e_bind_Inr e_bind_def split: if_splits sum.splits)

lemma two_word_engine_card:
  "next_card ascii_methods ascii_score (\<lambda>i. 100) 0 True two_word_engine
   = (\<lparr>store = Stored [word_of ''gitmek'' 0 0 0 2, word_of ''ev'' 6 0 0 0], writable = True,
        words = [word_of ''gitmek'' 0 0 0 2, word_of ''ev'' 6 0 0 0], pool = [0],
        current = Some 0\<rparr>, Inr (Some (JStr ''gitmek'', JStr ''x'')))"
  by (simp add: two_word_engine_def pool_eval card_eval target_verbs_14 engine_of_def word_of_def)

text \<open>
  C3. A word of the collection whose stage is \<^verbatim>\<open>MAX_STAGE\<close> is never eligible: whatever its
  \<^verbatim>\<open>due\<close> is, \<^verbatim>\<open>is_available_now\<close> does not return \<^verbatim>\<open>True\<close> for it, and returns \<^verbatim>\<open>False\<close>
  whenever \<^verbatim>\<open>due\<close> is readable. \<^verbatim>\<open>refresh_pool\<close> never places it in the pool,
  \<^verbatim>\<open>pick_from_pool\<close> never selects it from a refreshed pool, and when \<^verbatim>\<open>next_card\<close> returns a
  card the word is neither the current word nor in the pool.
\<close>

theorem max_stage_never_selected:
  assumes j: "j < length (words s)"
    and st: "get_int (words s ! j) ''stage'' 0 = Inr MAX_STAGE"
  shows "is_available_now t (words s ! j) \<noteq> Inr True
       \<and> (\<forall>d. get_int (words s ! j) ''due'' 0 = Inr d \<longrightarrow> is_available_now t (words s ! j) = Inr False)
       \<and> (\<forall>s1. refresh_pool lib score clk s = Inr s1 \<longrightarrow> j \<notin> set (pool s1))
       \<and> (\<forall>s1 i. refresh_pool lib score clk s = Inr s1 \<and> pick_from_pool r s1 = Inr (Some i) \<longrightarrow> i \<noteq> j)
       \<and> (\<forall>c. snd (next_card lib score clk r side s) = Inr (Some c) \<longrightarrow>
              current (fst (next_card lib score clk r side s)) \<noteq> Some j
              \<and> j \<notin> set (pool (fst (next_card lib score clk r side s))))"
proof -
  have ne: "\<not> eligible clk (words s) j"
    using max_stage_not_available(1)[OF st] by (simp add: eligible_def)
  have pool: "j \<notin> set (pool s1)" if "refresh_pool lib score clk s = Inr s1" for s1
    using that ne pool_built_subset[of lib score clk "words s"] by (auto simp: refresh_pool_Inr)
  have pick: "i \<noteq> j" if "refresh_pool lib score clk s = Inr s1" "pick_from_pool r s1 = Inr (Some i)" for s1 i
    using pool[OF that(1)] pick_from_pool_Some[OF that(2)] by auto
  have card: "current (fst (next_card lib score clk r side s)) \<noteq> Some j
              \<and> j \<notin> set (pool (fst (next_card lib score clk r side s)))"
    if c: "snd (next_card lib score clk r side s) = Inr (Some c)" for c
  proof (cases "refresh_pool lib score clk s")
    case (Inl e)
    with c show ?thesis by (simp add: next_card_raises_early)
  next
    case (Inr s1)
    from next_card_after_refresh[OF Inr, of r side] c pool[OF Inr] show ?thesis by auto
  qed
  from max_stage_not_available[OF st] pool pick card show ?thesis by blast
qed

theorem max_stage_never_selected_witness:
  "1 < length (words two_word_engine)
   \<and> get_int (words two_word_engine ! 1) ''stage'' 0 = Inr MAX_STAGE
   \<and> get_int (words two_word_engine ! 1) ''due'' 0 = Inr 0
   \<and> is_available_now 100 (words two_word_engine ! 1) = Inr False
   \<and> refresh_pool ascii_methods ascii_score (\<lambda>i. 100) two_word_engine
        = Inr (two_word_engine\<lparr>pool := [0]\<rparr>)
   \<and> pick_from_pool 0 (two_word_engine\<lparr>pool := [0]\<rparr>) = Inr (Some 0)
   \<and> snd (next_card ascii_methods ascii_score (\<lambda>i. 100) 0 True two_word_engine)
        = Inr (Some (JStr ''gitmek'', JStr ''x''))
   \<and> current (fst (next_card ascii_methods ascii_score (\<lambda>i. 100) 0 True two_word_engine)) \<noteq> Some 1
   \<and> 1 \<notin> set (pool (fst (next_card ascii_methods ascii_score (\<lambda>i. 100) 0 True two_word_engine)))"
proof -
  have h: "1 < length (words two_word_engine)"
    "get_int (words two_word_engine ! 1) ''stage'' 0 = Inr MAX_STAGE"
    by (simp_all add: two_word_engine_def engine_of_def word_of_def get_int_def dict_get_def
          MAX_STAGE_def)
  have d: "get_int (words two_word_engine ! 1) ''due'' 0 = Inr 0"
    by (simp add: two_word_engine_def engine_of_def word_of_def get_int_def dict_get_def)
  have c: "snd (next_card ascii_methods ascii_score (\<lambda>i. 100) 0 True two_word_engine)
        = Inr (Some (JStr ''gitmek'', JStr ''x''))"
    by (simp add: two_word_engine_card)
  from max_stage_never_selected[OF h, where t = 100 and lib = ascii_methods and score = ascii_score
      and clk = "\<lambda>i. 100" and r = 0 and side = True] d c
  have "is_available_now 100 (words two_word_engine ! 1) = Inr False"
    and "current (fst (next_card ascii_methods ascii_score (\<lambda>i. 100) 0 True two_word_engine)) \<noteq> Some 1"
    and "1 \<notin> set (pool (fst (next_card ascii_methods ascii_score (\<lambda>i. 100) 0 True two_word_engine)))"
    by blast+
  moreover have "refresh_pool ascii_methods ascii_score (\<lambda>i. 100) two_word_engine
        = Inr (two_word_engine\<lparr>pool := [0]\<rparr>)"
    by (simp add: two_word_engine_def pool_eval target_verbs_14 engine_of_def word_of_def)
  moreover have "pick_from_pool 0 (two_word_engine\<lparr>pool := [0]\<rparr>) = Inr (Some 0)"
    by (simp add: two_word_engine_def pick_from_pool_def weight_def e_bind_def get_int_def
          dict_get_def engine_of_def word_of_def)
  ultimately show ?thesis using h d c by (intro conjI)
qed

lemma next_card_changes:
  "length (words (fst (next_card lib score clk r side s))) = length (words s)
   \<and> (\<forall>j < length (words s).
         words (fst (next_card lib score clk r side s)) ! j = words s ! j
         \<or> (current (fst (next_card lib score clk r side s)) = Some j
            \<and> (\<exists>a. get_int (words s ! j) ''again'' 0 = Inr a \<and> 0 < a
                 \<and> words (fst (next_card lib score clk r side s)) ! j
                      = AList.update ''again'' (JInt (a - 1)) (words s ! j))))
   \<and> (\<forall>j < length (words s). \<forall>k. k \<noteq> ''again'' \<longrightarrow>
         map_of (words (fst (next_card lib score clk r side s)) ! j) k = map_of (words s ! j) k)"
proof (cases "refresh_pool lib score clk s")
  case (Inl e)
  then show ?thesis by (simp add: next_card_raises_early)
next
  case (Inr s1)
  then have w1: "words s1 = words s" by (auto simp: refresh_pool_Inr)
  have upd: "j < length xs \<Longrightarrow> xs[i := x] ! j = (if j = i then x else xs ! j)"
    for i j :: nat and x :: word and xs
    by (cases "j = i") simp_all
  from next_card_after_refresh[OF Inr, of r side] show ?thesis
    unfolding w1
    by (elim conjE disjE exE) (auto simp: upd update_conv')
qed

text \<open>
  C10. \<^verbatim>\<open>next_card\<close> keeps the length of the collection; a word it changes is the current
  (selected) word, its \<^verbatim>\<open>again\<close> was positive, and the change is that \<^verbatim>\<open>again\<close> holds one
  less; every other key of every word (stage, streak, due, correct, tr, ru and any
  further key) holds what it held before. This holds for every engine state, whether
  \<^verbatim>\<open>next_card\<close> returns a card, returns \<^verbatim>\<open>None\<close> or raises.
\<close>

theorem next_card_frame:
  "length (words (fst (next_card lib score clk r side s))) = length (words s)
   \<and> (\<forall>j < length (words s).
         words (fst (next_card lib score clk r side s)) ! j = words s ! j
         \<or> (current (fst (next_card lib score clk r side s)) = Some j
            \<and> (\<exists>a. get_int (words s ! j) ''again'' 0 = Inr a \<and> 0 < a
                 \<and> words (fst (next_card lib score clk r side s)) ! j
                      = AList.update ''again'' (JInt (a - 1)) (words s ! j))))
   \<and> (\<forall>j < length (words s). \<forall>k. k \<noteq> ''again'' \<longrightarrow>
         map_of (words (fst (next_card lib score clk r side s)) ! j) k = map_of (words s ! j) k)"
  by (rule next_card_changes)

theorem next_card_frame_witness:
  "length (words (fst (next_card ascii_methods ascii_score (\<lambda>i. 100) 0 True two_word_engine)))
     = length (words two_word_engine)
   \<and> words (fst (next_card ascii_methods ascii_score (\<lambda>i. 100) 0 True two_word_engine)) ! 1
       = words two_word_engine ! 1
   \<and> current (fst (next_card ascii_methods ascii_score (\<lambda>i. 100) 0 True two_word_engine)) = Some 0
   \<and> get_int (words two_word_engine ! 0) ''again'' 0 = Inr 3
   \<and> get_int (words (fst (next_card ascii_methods ascii_score (\<lambda>i. 100) 0 True two_word_engine)) ! 0)
        ''again'' 0 = Inr 2
   \<and> map_of (words (fst (next_card ascii_methods ascii_score (\<lambda>i. 100) 0 True two_word_engine)) ! 0)
        ''stage'' = map_of (words two_word_engine ! 0) ''stage''"
proof -
  have len: "0 < length (words two_word_engine)"
    by (simp add: two_word_engine_def engine_of_def)
  from next_card_frame[of ascii_methods ascii_score "\<lambda>i. 100" 0 True two_word_engine] len
  have "length (words (fst (next_card ascii_methods ascii_score (\<lambda>i. 100) 0 True two_word_engine)))
     = length (words two_word_engine)"
    and "map_of (words (fst (next_card ascii_methods ascii_score (\<lambda>i. 100) 0 True two_word_engine)) ! 0)
        ''stage'' = map_of (words two_word_engine ! 0) ''stage''"
    by simp_all
  moreover have "words (fst (next_card ascii_methods ascii_score (\<lambda>i. 100) 0 True two_word_engine)) ! 1
       = words two_word_engine ! 1"
    "current (fst (next_card ascii_methods ascii_score (\<lambda>i. 100) 0 True two_word_engine)) = Some 0"
    "get_int (words two_word_engine ! 0) ''again'' 0 = Inr 3"
    "get_int (words (fst (next_card ascii_methods ascii_score (\<lambda>i. 100) 0 True two_word_engine)) ! 0)
        ''again'' 0 = Inr 2"
    by (simp_all add: two_word_engine_card)
       (simp_all add: two_word_engine_def engine_of_def word_of_def get_int_def dict_get_def)
  ultimately show ?thesis by (intro conjI)
qed

section \<open>The bounds of stage and \<^verbatim>\<open>again\<close>\<close>

lemma normalized_in_bounds: "normalized w \<Longrightarrow> in_bounds w"
  by (simp add: normalized_def in_bounds_def)

lemma in_boundsD:
  assumes "in_bounds w"
  obtains g a where "int_field w ''stage'' = Some g" "0 \<le> g" "g \<le> MAX_STAGE"
    "int_field w ''again'' = Some a" "0 \<le> a" "a \<le> 10"
  using assms by (auto simp: in_bounds_def split: option.splits)

lemma know_word_in_bounds:
  assumes "in_bounds w"
  shows "in_bounds (fst (know_word t w))"
proof -
  from assms obtain g a where g: "int_field w ''stage'' = Some g" "0 \<le> g" "g \<le> MAX_STAGE"
    and a: "int_field w ''again'' = Some a" "0 \<le> a" "a \<le> 10"
    by (rule in_boundsD)
  have gi: "get_int (AList.update ''streak'' x (AList.update ''correct'' z w)) ''stage'' 0 = Inr g"
    for x z
    using g(1) by (simp add: get_int_update_other int_field_get_int)
  show ?thesis
    using g a
    by (auto simp: know_word_def Let_def in_bounds_def int_field_update gi MAX_STAGE_def
          split: sum.splits)
qed

lemma dont_know_word_in_bounds:
  assumes "in_bounds w"
  shows "in_bounds (fst (dont_know_word w))"
proof -
  from assms obtain g a where g: "int_field w ''stage'' = Some g" "0 \<le> g" "g \<le> MAX_STAGE"
    and a: "int_field w ''again'' = Some a" "0 \<le> a" "a \<le> 10"
    by (rule in_boundsD)
  have gi: "get_int (AList.update ''due'' x (AList.update ''streak'' y w)) ''stage'' 0 = Inr g"
    "get_int (AList.update ''due'' x (AList.update ''streak'' y w)) ''again'' 0 = Inr a"
    "get_int (AList.update ''stage'' z (AList.update ''due'' x (AList.update ''streak'' y w))) ''again'' 0 = Inr a"
    for x y z
    using g(1) a(1) by (simp_all add: get_int_update_other int_field_get_int)
  show ?thesis
    using g a
    by (auto simp: dont_know_word_def Let_def in_bounds_def int_field_update gi MAX_STAGE_def)
qed

lemma answer_words:
  "words (fst (answer f s)) = words s
   \<or> (\<exists>i. current s = Some i \<and> words (fst (answer f s)) = (words s)[i := fst (f (words s ! i))])"
  by (cases "current s")
     (auto simp: answer_def Let_def save_words_def split: prod.splits option.splits)

lemma answer_in_bounds:
  assumes f: "\<And>w. in_bounds w \<Longrightarrow> in_bounds (fst (f w))"
    and inv: "\<forall>w \<in> set (words s). in_bounds w"
  shows "\<forall>w \<in> set (words (fst (answer f s))). in_bounds w"
proof -
  from answer_words[of f s] show ?thesis
  proof
    assume "words (fst (answer f s)) = words s"
    with inv show ?thesis by simp
  next
    assume "\<exists>i. current s = Some i \<and> words (fst (answer f s)) = (words s)[i := fst (f (words s ! i))]"
    then obtain i where w: "words (fst (answer f s)) = (words s)[i := fst (f (words s ! i))]"
      by blast
    show ?thesis
    proof (cases "i < length (words s)")
      case False
      then have "(words s)[i := fst (f (words s ! i))] = words s"
        by (simp add: list_update_beyond not_less)
      with w inv show ?thesis by simp
    next
      case True
      then have "in_bounds (words s ! i)" using inv by simp
      then have "in_bounds (fst (f (words s ! i)))" by (rule f)
      moreover have "set ((words s)[i := fst (f (words s ! i))])
          \<subseteq> insert (fst (f (words s ! i))) (set (words s))"
        by (rule set_update_subset_insert)
      ultimately show ?thesis using inv unfolding w by blast
    qed
  qed
qed

lemma next_card_in_bounds:
  assumes inv: "\<forall>w \<in> set (words s). in_bounds w"
  shows "\<forall>w \<in> set (words (fst (next_card lib score clk r side s))). in_bounds w"
proof -
  have len: "length (words (fst (next_card lib score clk r side s))) = length (words s)"
    and fr: "\<forall>j < length (words s).
         words (fst (next_card lib score clk r side s)) ! j = words s ! j
         \<or> (current (fst (next_card lib score clk r side s)) = Some j
            \<and> (\<exists>a. get_int (words s ! j) ''again'' 0 = Inr a \<and> 0 < a
                 \<and> words (fst (next_card lib score clk r side s)) ! j
                      = AList.update ''again'' (JInt (a - 1)) (words s ! j)))"
    using next_card_changes[of lib score clk r side s] by (rule conjunct1, rule conjunct2[THEN conjunct1])
  show ?thesis
  proof
    fix w assume "w \<in> set (words (fst (next_card lib score clk r side s)))"
    then obtain j where j: "j < length (words s)" "w = words (fst (next_card lib score clk r side s)) ! j"
      by (auto simp: in_set_conv_nth len)
    then have old: "in_bounds (words s ! j)" using inv by simp
    from fr j consider "w = words s ! j"
      | a where "get_int (words s ! j) ''again'' 0 = Inr a" "0 < a"
          "w = AList.update ''again'' (JInt (a - 1)) (words s ! j)"
      by auto
    then show "in_bounds w"
    proof cases
      case 1
      with old show ?thesis by simp
    next
      case 2
      from old obtain a' where "int_field (words s ! j) ''again'' = Some a'" "a' \<le> 10"
        by (auto elim: in_boundsD)
      with 2 have "a \<le> 10" by (simp add: int_field_get_int)
      with 2 old show ?thesis
        by (auto simp: in_bounds_def int_field_update)
    qed
  qed
qed

lemma load_words_normalized:
  assumes "load_words f wr = (f', Inr ws)"
  shows "\<forall>w \<in> set ws. normalized w"
proof
  fix w assume w: "w \<in> set ws"
  from assms obtain data where "e_map normalize_word data = Inr ws"
    by (auto simp: load_words_def split: storage.splits sum.splits)
  with w obtain x where "normalize_word x = Inr w" by (blast dest: e_map_set)
  then show "normalized w" by (rule normalize_word_normalized)
qed

lemma init_normalized:
  assumes "init f b wr = Inr s"
  shows "\<forall>w \<in> set (words s). normalized w"
proof -
  from assms obtain f1 f2 where "load_words f1 wr = (f2, Inr (words s))"
    by (auto simp: init_def Let_def split: prod.splits sum.splits)
  then show ?thesis by (rule load_words_normalized)
qed

text \<open>
  C4. A word that \<^verbatim>\<open>normalize_word\<close> returns has its stage in \<open>[0, 6]\<close> and its \<^verbatim>\<open>again\<close> in
  \<open>[0, 10]\<close>; when every word of an engine is within these bounds, every word is within
  them after \<^verbatim>\<open>next_card\<close>, after \<^verbatim>\<open>answer_know\<close> and after \<^verbatim>\<open>answer_dont_know\<close>; and every
  word of every reachable state is within them.
\<close>

theorem bounds_invariant:
  "(normalize_word w0 = Inr w \<longrightarrow> in_bounds w)
   \<and> ((\<forall>w \<in> set (words s). in_bounds w) \<longrightarrow>
        (\<forall>w \<in> set (words (fst (next_card lib score clk r side s))). in_bounds w)
        \<and> (\<forall>w \<in> set (words (fst (answer_know t s))). in_bounds w)
        \<and> (\<forall>w \<in> set (words (fst (answer_dont_know s))). in_bounds w))
   \<and> (reachable s' \<longrightarrow> (\<forall>w \<in> set (words s'). in_bounds w))"
proof (intro conjI impI)
  assume "normalize_word w0 = Inr w"
  then show "in_bounds w" by (intro normalized_in_bounds normalize_word_normalized)
next
  assume "\<forall>w \<in> set (words s). in_bounds w"
  then show "\<forall>w \<in> set (words (fst (next_card lib score clk r side s))). in_bounds w"
    by (rule next_card_in_bounds)
next
  assume "\<forall>w \<in> set (words s). in_bounds w"
  then show "\<forall>w \<in> set (words (fst (answer_know t s))). in_bounds w"
    unfolding answer_know_def by (intro answer_in_bounds know_word_in_bounds)
next
  assume "\<forall>w \<in> set (words s). in_bounds w"
  then show "\<forall>w \<in> set (words (fst (answer_dont_know s))). in_bounds w"
    unfolding answer_dont_know_def by (intro answer_in_bounds dont_know_word_in_bounds)
next
  assume "reachable s'"
  then show "\<forall>w \<in> set (words s'). in_bounds w"
  proof (induction rule: reachable.induct)
    case (start f bundled wr s)
    then show ?case using init_normalized normalized_in_bounds by blast
  next
    case (card s lib score clk r tr_first)
    from card.IH show ?case by (rule next_card_in_bounds)
  next
    case (know s t)
    from know.IH show ?case unfolding answer_know_def by (intro answer_in_bounds know_word_in_bounds)
  next
    case (dont_know s)
    from dont_know.IH show ?case unfolding answer_dont_know_def
      by (intro answer_in_bounds dont_know_word_in_bounds)
  qed
qed

theorem bounds_invariant_witness:
  "normalize_word (word_of ''ev'' 2 1 7 0) = Inr (word_of ''ev'' 2 1 7 0)
   \<and> in_bounds (word_of ''ev'' 2 1 7 0)
   \<and> list_all in_bounds (words (engine_of [word_of ''ev'' 2 1 7 0] (Some 0)))
   \<and> list_all in_bounds (words (fst (next_card ascii_methods ascii_score (\<lambda>i. 100) 0 True
                                        (engine_of [word_of ''ev'' 2 1 7 0] (Some 0)))))
   \<and> list_all in_bounds (words (fst (answer_know 5 (engine_of [word_of ''ev'' 2 1 7 0] (Some 0)))))
   \<and> list_all in_bounds (words (fst (answer_dont_know (engine_of [word_of ''ev'' 2 1 7 0] (Some 0)))))
   \<and> init (Stored [word_of ''ev'' 2 1 7 0]) Missing True
        = Inr (engine_of [word_of ''ev'' 2 1 7 0] None)
   \<and> reachable (engine_of [word_of ''ev'' 2 1 7 0] None)
   \<and> list_all in_bounds (words (engine_of [word_of ''ev'' 2 1 7 0] None))"
proof -
  have norm: "normalized (word_of ''ev'' 2 1 7 0)"
    by (simp add: normalized_def word_of_def has_key_def int_field_def MAX_STAGE_def)
  have n: "normalize_word (word_of ''ev'' 2 1 7 0) = Inr (word_of ''ev'' 2 1 7 0)"
    using norm by (rule normalize_word_idem)
  have i: "init (Stored [word_of ''ev'' 2 1 7 0]) Missing True
        = Inr (engine_of [word_of ''ev'' 2 1 7 0] None)"
    by (simp add: init_def load_words_def n e_bind_def engine_of_def)
  have r: "reachable (engine_of [word_of ''ev'' 2 1 7 0] None)"
    using i by (rule reachable.start)
  note b = bounds_invariant[of "word_of ''ev'' 2 1 7 0" "word_of ''ev'' 2 1 7 0"
      "engine_of [word_of ''ev'' 2 1 7 0] (Some 0)" ascii_methods ascii_score "\<lambda>i. 100" 0 True 5
      "engine_of [word_of ''ev'' 2 1 7 0] None"]
  from b n have w: "in_bounds (word_of ''ev'' 2 1 7 0)" by blast
  then have s: "\<forall>w \<in> set (words (engine_of [word_of ''ev'' 2 1 7 0] (Some 0))). in_bounds w"
    by (simp add: engine_of_def)
  from b s have
    "\<forall>w \<in> set (words (fst (next_card ascii_methods ascii_score (\<lambda>i. 100) 0 True
                          (engine_of [word_of ''ev'' 2 1 7 0] (Some 0))))). in_bounds w"
    "\<forall>w \<in> set (words (fst (answer_know 5 (engine_of [word_of ''ev'' 2 1 7 0] (Some 0))))). in_bounds w"
    "\<forall>w \<in> set (words (fst (answer_dont_know (engine_of [word_of ''ev'' 2 1 7 0] (Some 0))))). in_bounds w"
    by blast+
  moreover from b r have
    "\<forall>w \<in> set (words (engine_of [word_of ''ev'' 2 1 7 0] None)). in_bounds w"
    by blast
  ultimately show ?thesis using n w s i r by (simp only: list_all_iff simp_thms)
qed

section \<open>Storage\<close>

lemma write_words_returns:
  "write_words wr f ws = (f', None) \<longleftrightarrow> wr \<and> can_encode ws \<and> f' = Stored ws"
  by (auto simp: write_words_def can_encode_def)

lemma save_words_returns:
  "snd (save_words s) = None \<longleftrightarrow> writable s \<and> can_encode (words s)"
  by (auto simp: save_words_def write_words_def can_encode_def split: prod.splits if_splits)

text \<open>
  C8. For an engine whose words all came out of \<^verbatim>\<open>normalize_word\<close> and on which
  \<^verbatim>\<open>save_words\<close> returns without raising, the file could be written and every string of
  the collection could be encoded, \<^verbatim>\<open>save_words\<close> has stored the words, and \<^verbatim>\<open>load_words\<close> on
  the stored file returns the same list of words: every key of every word with the value
  and at the position it had, the integers and the order of the translations included.
\<close>

theorem save_load_roundtrip:
  assumes norm: "\<forall>w \<in> set (words s). \<exists>w0. normalize_word w0 = Inr w"
    and ok: "snd (save_words s) = None"
  shows "writable s \<and> can_encode (words s)
       \<and> save_words s = (s\<lparr>store := Stored (words s)\<rparr>, None)
       \<and> load_words (store (fst (save_words s))) b = (Stored (words s), Inr (words s))"
proof -
  from ok have wr: "writable s" and enc: "can_encode (words s)"
    by (simp_all add: save_words_returns)
  have "\<forall>w \<in> set (words s). normalize_word w = Inr w"
    using norm normalize_word_normalized normalize_word_idem by blast
  then have "e_map normalize_word (words s) = Inr (words s)" by (rule e_map_id)
  moreover from wr enc
  have "write_words (writable s) (store s) (words s) = (Stored (words s), None)"
    by (simp add: write_words_returns)
  ultimately show ?thesis using wr enc by (simp add: save_words_def load_words_def)
qed

theorem save_load_roundtrip_witness:
  "normalize_word (word_of ''ev'' 2 1 7 0) = Inr (word_of ''ev'' 2 1 7 0)
   \<and> snd (save_words ((engine_of [word_of ''ev'' 2 1 7 0] None)\<lparr>store := Missing\<rparr>)) = None
   \<and> can_encode (words ((engine_of [word_of ''ev'' 2 1 7 0] None)\<lparr>store := Missing\<rparr>))
   \<and> store (fst (save_words ((engine_of [word_of ''ev'' 2 1 7 0] None)\<lparr>store := Missing\<rparr>)))
        = Stored [word_of ''ev'' 2 1 7 0]
   \<and> load_words (store (fst (save_words
          ((engine_of [word_of ''ev'' 2 1 7 0] None)\<lparr>store := Missing\<rparr>)))) True
        = (Stored [word_of ''ev'' 2 1 7 0], Inr [word_of ''ev'' 2 1 7 0])"
proof -
  have norm: "normalized (word_of ''ev'' 2 1 7 0)"
    by (simp add: normalized_def word_of_def has_key_def int_field_def MAX_STAGE_def)
  have n: "normalize_word (word_of ''ev'' 2 1 7 0) = Inr (word_of ''ev'' 2 1 7 0)"
    using norm by (rule normalize_word_idem)
  have h: "\<forall>w \<in> set (words ((engine_of [word_of ''ev'' 2 1 7 0] None)\<lparr>store := Missing\<rparr>)).
             \<exists>w0. normalize_word w0 = Inr w"
    using n by (auto simp: engine_of_def)
  have ok: "snd (save_words ((engine_of [word_of ''ev'' 2 1 7 0] None)\<lparr>store := Missing\<rparr>)) = None"
    by (simp add: engine_of_def save_words_def write_words_def word_of_def)
  note t = save_load_roundtrip[OF h ok, of True]
  from t have enc: "can_encode (words ((engine_of [word_of ''ev'' 2 1 7 0] None)\<lparr>store := Missing\<rparr>))"
    by (rule conjunct2[THEN conjunct1])
  from t have "save_words ((engine_of [word_of ''ev'' 2 1 7 0] None)\<lparr>store := Missing\<rparr>)
      = ((engine_of [word_of ''ev'' 2 1 7 0] None)
           \<lparr>store := Missing,
              store := Stored (words ((engine_of [word_of ''ev'' 2 1 7 0] None)\<lparr>store := Missing\<rparr>))\<rparr>,
         None)"
    by (rule conjunct2[THEN conjunct2, THEN conjunct1])
  then have s: "store (fst (save_words ((engine_of [word_of ''ev'' 2 1 7 0] None)\<lparr>store := Missing\<rparr>)))
        = Stored [word_of ''ev'' 2 1 7 0]"
    by (simp add: engine_of_def)
  from t have "load_words (store (fst (save_words
          ((engine_of [word_of ''ev'' 2 1 7 0] None)\<lparr>store := Missing\<rparr>)))) True
        = (Stored (words ((engine_of [word_of ''ev'' 2 1 7 0] None)\<lparr>store := Missing\<rparr>)),
           Inr (words ((engine_of [word_of ''ev'' 2 1 7 0] None)\<lparr>store := Missing\<rparr>)))"
    by (rule conjunct2[THEN conjunct2, THEN conjunct2])
  then have l: "load_words (store (fst (save_words
          ((engine_of [word_of ''ev'' 2 1 7 0] None)\<lparr>store := Missing\<rparr>)))) True
        = (Stored [word_of ''ev'' 2 1 7 0], Inr [word_of ''ev'' 2 1 7 0])"
    by (simp add: engine_of_def)
  from n ok enc s l show ?thesis by (intro conjI)
qed

text \<open>
  The claim as stated, for every normalized collection, fails for a collection with a
  lone surrogate in a string. \<^verbatim>\<open>load_words\<close> returns such a collection from a file that
  holds it as an escape, and the engine the constructor builds from that file holds it.
  \<^verbatim>\<open>save_words\<close> on that engine raises \<^verbatim>\<open>UnicodeEncodeError\<close> and leaves a file that is not
  JSON, on which \<^verbatim>\<open>load_words\<close> raises.
\<close>

theorem save_words_surrogate_counterexample:
  "normalize_word surrogate_word = Inr surrogate_word
   \<and> load_words (Stored [surrogate_word]) True = (Stored [surrogate_word], Inr [surrogate_word])
   \<and> init (Stored [surrogate_word]) Missing True = Inr (engine_of [surrogate_word] None)
   \<and> writable (engine_of [surrogate_word] None)
   \<and> save_words (engine_of [surrogate_word] None)
        = ((engine_of [surrogate_word] None)\<lparr>store := Invalid\<rparr>, Some UnicodeEncodeError)
   \<and> load_words (store (fst (save_words (engine_of [surrogate_word] None)))) True
        = (Invalid, Inl JSONDecodeError)"
proof -
  have norm: "normalized surrogate_word"
    by (simp add: surrogate_word_def normalized_def word_of_def has_key_def int_field_def
          MAX_STAGE_def)
  have n: "normalize_word surrogate_word = Inr surrogate_word"
    using norm by (rule normalize_word_idem)
  have l: "load_words (Stored [surrogate_word]) True
        = (Stored [surrogate_word], Inr [surrogate_word])"
    by (simp add: load_words_def n e_bind_def)
  have i: "init (Stored [surrogate_word]) Missing True = Inr (engine_of [surrogate_word] None)"
    by (simp add: init_def l engine_of_def)
  have w: "writable (engine_of [surrogate_word] None)"
    by (simp add: engine_of_def)
  have s: "save_words (engine_of [surrogate_word] None)
        = ((engine_of [surrogate_word] None)\<lparr>store := Invalid\<rparr>, Some UnicodeEncodeError)"
    by (simp add: save_words_def write_words_def engine_of_def surrogate_word_def word_of_def)
  have r: "load_words (store (fst (save_words (engine_of [surrogate_word] None)))) True
        = (Invalid, Inl JSONDecodeError)"
    by (simp add: s load_words_def)
  from n l i w s r show ?thesis by (intro conjI)
qed

text \<open>
  C6. The claim says that no failure of the storage reaches the caller. In the code
  \<^verbatim>\<open>load_words\<close> reads an existing file outside any \<^verbatim>\<open>try\<close>, so a file that is not JSON or
  cannot be opened raises out of \<^verbatim>\<open>load_words\<close> and out of the constructor; and
  \<^verbatim>\<open>save_words\<close> has no \<^verbatim>\<open>try\<close>, so a failed write raises out of \<^verbatim>\<open>save_words\<close> and out of
  the answer operation that called it. Only the write of the default words is guarded.
\<close>

theorem storage_failures_reach_caller:
  "load_words Invalid True = (Invalid, Inl JSONDecodeError)
   \<and> load_words Unreadable True = (Unreadable, Inl OSError)
   \<and> snd (load_words (Stored [[(''tr'', JStr ''ev''), (''correct'', JNull)]]) True) = Inl TypeError
   \<and> init Invalid Missing True = Inl JSONDecodeError
   \<and> save_words ((engine_of [word_of ''ev'' 2 1 7 0] (Some 0))\<lparr>writable := False\<rparr>)
        = ((engine_of [word_of ''ev'' 2 1 7 0] (Some 0))\<lparr>writable := False\<rparr>, Some OSError)
   \<and> snd (answer_dont_know ((engine_of [word_of ''ev'' 2 1 7 0] (Some 0))\<lparr>writable := False\<rparr>))
        = Some OSError"
  by (simp add: load_words_def init_def eval_defs normalize_word_def setdefault_def has_key_def
        e_bind_def)

end
